theory Spec2Isabelle
  imports Complex_Main "HOL-Library.Word" "HOL-Library.Monad_Syntax"
begin

unbundle bit_operations_syntax

section \<open>Status codes, streams and nodes\<close>

text \<open>
  \<open>status_t\<close> is a 32-bit integer; handlers accumulate it with \<open>status |= ...\<close>, so the
  bitwise OR is kept. The values are those of Android's \<open>utils/Errors.h\<close>:
  \<open>OK = NO_ERROR = 0\<close>, \<open>UNKNOWN_ERROR = INT32_MIN\<close>, \<open>BAD_VALUE = -EINVAL\<close>.
\<close>

type_synonym status_t = "32 word"

definition OK :: status_t where "OK = 0"
definition NO_ERROR :: status_t where "NO_ERROR = 0"
definition UNKNOWN_ERROR :: status_t where "UNKNOWN_ERROR = 0x80000000"
definition BAD_VALUE :: status_t where "BAD_VALUE = - 22"
definition EAGAIN :: status_t where "EAGAIN = 11"

datatype stream_type_t =
  CAMERA3_STREAM_OUTPUT | CAMERA3_STREAM_INPUT | CAMERA3_STREAM_BIDIRECTIONAL

datatype pixel_format =
  HAL_PIXEL_FORMAT_BLOB
| HAL_PIXEL_FORMAT_YCbCr_420_888
| HAL_PIXEL_FORMAT_IMPLEMENTATION_DEFINED
| HAL_PIXEL_FORMAT_OTHER int

text \<open>
  A \<open>camera3_stream_t *\<close>: the address of the stream object (its identity, the key of
  \<open>std::map<camera3_stream_t *, NodeTypes>\<close>) together with the fields read through it.
  \<open>width\<close> and \<open>height\<close> are \<open>uint32_t\<close>.
\<close>

record camera3_stream_t =
  addr :: nat
  stream_type :: stream_type_t
  width :: "32 word"
  height :: "32 word"
  format :: pixel_format

datatype NodeTypes =
  IMGU_NODE_VIDEO
| IMGU_NODE_VF_PREVIEW
| IMGU_NODE_PV_PREVIEW
| IMGU_NODE_STILL
| IMGU_NODE_RAW
| IMGU_NODE_OTHER nat

record StreamConfig =
  blobStreams :: "camera3_stream_t list"
  rawStreams :: "camera3_stream_t list"
  yuvStreams :: "camera3_stream_t list"
  inputStream :: "camera3_stream_t option"

section \<open>Single-precision arithmetic of \<open>streamSizeRatio\<close>\<close>

text \<open>
  \<open>streamSizeRatio\<close> divides in \<open>float\<close>. A binary32 value is a rational, an infinity or
  NaN; every operation computes exactly and rounds to nearest, ties to even, with a 24-bit
  significand, the smallest exponent \<open>-126\<close> and overflow to infinity at \<open>2^128\<close>.
  The sign of zero is not kept: no operand of the mapper is negative, so no quotient
  depends on it.
\<close>

datatype f32 = Fin rat | PInf | NInf | NaN

function bitlen_int :: "int \<Rightarrow> int" where
  "bitlen_int n = (if n \<le> 0 then 0 else 1 + bitlen_int (n div 2))"
  by pat_completeness auto
termination
  by (relation "measure nat") auto

declare bitlen_int.simps [simp del]

definition pow2 :: "int \<Rightarrow> rat" where
  "pow2 e = (if 0 \<le> e then 2 ^ nat e else 1 / 2 ^ nat (- e))"

definition exponent :: "rat \<Rightarrow> int" where
  "exponent a = (let (n, d) = quotient_of a;
                     e0 = bitlen_int n - bitlen_int d
                 in if a < pow2 e0 then e0 - 1 else e0)"

definition round_even :: "rat \<Rightarrow> int" where
  "round_even m = (let f = \<lfloor>m\<rfloor>; d = m - of_int f
                   in if d < 1 / 2 then f else if 1 / 2 < d then f + 1
                      else if even f then f else f + 1)"

definition round_f32 :: "rat \<Rightarrow> f32" where
  "round_f32 q = (if q = 0 then Fin 0 else
     let a = \<bar>q\<bar>;
         e = max (exponent a) (- 126);
         ulp = pow2 (e - 23);
         v = of_int (round_even (a / ulp)) * ulp
     in if pow2 128 \<le> v then (if 0 < q then PInf else NInf)
        else Fin (if 0 < q then v else - v))"

definition f32_of_uint :: "32 word \<Rightarrow> f32" where
  "f32_of_uint w = round_f32 (of_int (uint w))"

fun f32_div :: "f32 \<Rightarrow> f32 \<Rightarrow> f32" where
  "f32_div NaN _ = NaN"
| "f32_div _ NaN = NaN"
| "f32_div (Fin a) (Fin b) =
     (if b = 0 then (if a = 0 then NaN else if 0 < a then PInf else NInf)
      else round_f32 (a / b))"
| "f32_div (Fin a) _ = Fin 0"
| "f32_div PInf (Fin b) = (if b < 0 then NInf else PInf)"
| "f32_div NInf (Fin b) = (if b < 0 then PInf else NInf)"
| "f32_div _ _ = NaN"

fun f32_sub :: "f32 \<Rightarrow> f32 \<Rightarrow> f32" where
  "f32_sub NaN _ = NaN"
| "f32_sub _ NaN = NaN"
| "f32_sub (Fin a) (Fin b) = round_f32 (a - b)"
| "f32_sub (Fin a) PInf = NInf"
| "f32_sub (Fin a) NInf = PInf"
| "f32_sub PInf PInf = NaN"
| "f32_sub NInf NInf = NaN"
| "f32_sub PInf _ = PInf"
| "f32_sub NInf _ = NInf"

fun f32_fabs :: "f32 \<Rightarrow> f32" where
  "f32_fabs (Fin a) = Fin \<bar>a\<bar>"
| "f32_fabs PInf = PInf"
| "f32_fabs NInf = PInf"
| "f32_fabs NaN = NaN"

fun f32_lt :: "f32 \<Rightarrow> f32 \<Rightarrow> bool" where
  "f32_lt NaN _ = False"
| "f32_lt _ NaN = False"
| "f32_lt (Fin a) (Fin b) = (a < b)"
| "f32_lt (Fin a) PInf = True"
| "f32_lt NInf (Fin b) = True"
| "f32_lt NInf PInf = True"
| "f32_lt _ _ = False"

fun f32_le :: "f32 \<Rightarrow> f32 \<Rightarrow> bool" where
  "f32_le NaN _ = False"
| "f32_le _ NaN = False"
| "f32_le a b = (a = b \<or> f32_lt a b)"

section \<open>Stream-to-node mapping\<close>

text \<open>The four macros above \<open>mapStreamWithDeviceNode\<close>; the products wrap at \<open>2^32\<close>.\<close>

definition streamSizeGT :: "camera3_stream_t \<Rightarrow> camera3_stream_t \<Rightarrow> bool" where
  "streamSizeGT s1 s2 = (width s1 * height s1 > width s2 * height s2)"

definition streamSizeEQ :: "camera3_stream_t \<Rightarrow> camera3_stream_t \<Rightarrow> bool" where
  "streamSizeEQ s1 s2 = (width s1 * height s1 = width s2 * height s2)"

definition streamSizeGE :: "camera3_stream_t \<Rightarrow> camera3_stream_t \<Rightarrow> bool" where
  "streamSizeGE s1 s2 = (width s1 * height s1 \<ge> width s2 * height s2)"

definition streamSizeRatio :: "camera3_stream_t \<Rightarrow> f32" where
  "streamSizeRatio s1 = f32_div (f32_of_uint (width s1)) (f32_of_uint (height s1))"

text \<open>
  \<open>std::map<camera3_stream_t *, NodeTypes>\<close> as an association list in key (address)
  order; \<open>listenerAssign\<close> is \<open>m[k] = v\<close>.
\<close>

type_synonym listener_map = "(camera3_stream_t \<times> NodeTypes) list"

fun listenerAssign :: "listener_map \<Rightarrow> camera3_stream_t \<Rightarrow> NodeTypes \<Rightarrow> listener_map" where
  "listenerAssign [] k v = [(k, v)]"
| "listenerAssign ((k', v') # m) k v =
     (if addr k = addr k' then (k, v) # m
      else if addr k < addr k' then (k, v) # (k', v') # m
      else (k', v') # listenerAssign m k v)"

fun listenerLookup :: "listener_map \<Rightarrow> camera3_stream_t \<Rightarrow> NodeTypes option" where
  "listenerLookup [] k = None"
| "listenerLookup ((k', v') # m) k = (if addr k = addr k' then Some v' else listenerLookup m k)"

text \<open>
  The members \<open>mapStreamWithDeviceNode\<close> reads and writes. A value of
  \<open>mStreamNodeMapping\<close> is a pointer: \<open>Some None\<close> is a key holding \<open>nullptr\<close>.
\<close>

record Mapping =
  mActiveStreams :: StreamConfig
  mStreamNodeMapping :: "NodeTypes \<Rightarrow> camera3_stream_t option option"
  mStreamListenerMapping :: listener_map

text \<open>First loop of the three-or-more case: the index of the first stream of maximal size.\<close>

definition findVideoIdx :: "camera3_stream_t list \<Rightarrow> nat" where
  "findVideoIdx availableStreams =
     fold (\<lambda>i videoIdx.
             if streamSizeGT (availableStreams ! i) (availableStreams ! videoIdx)
             then i else videoIdx)
          [0..<length availableStreams] 0"

text \<open>Second loop; \<open>None\<close> is \<open>previewIdx == -1\<close>.\<close>

definition previewStep ::
  "camera3_stream_t list \<Rightarrow> nat \<Rightarrow> nat \<Rightarrow> nat option \<Rightarrow> nat option" where
  "previewStep availableStreams videoIdx i previewIdx =
     (if i = videoIdx then previewIdx
      else case previewIdx of
             None \<Rightarrow> Some i
           | Some p \<Rightarrow>
               if streamSizeEQ (availableStreams ! i) (availableStreams ! videoIdx)
               then previewIdx
               else if streamSizeGT (availableStreams ! i) (availableStreams ! p)
               then Some i else previewIdx)"

definition findPreviewIdx :: "camera3_stream_t list \<Rightarrow> nat \<Rightarrow> nat" where
  "findPreviewIdx availableStreams videoIdx =
     (case fold (previewStep availableStreams videoIdx) [0..<length availableStreams] None of
        None \<Rightarrow> 1
      | Some p \<Rightarrow> p)"

text \<open>The body of the third loop: the node stream \<open>i\<close> listens to.\<close>

definition listenerNode :: "camera3_stream_t list \<Rightarrow> nat \<Rightarrow> nat \<Rightarrow> nat \<Rightarrow> NodeTypes" where
  "listenerNode availableStreams videoIdx previewIdx i =
     (let videoSizeRatio = streamSizeRatio (availableStreams ! videoIdx);
          previewSizeRatio = streamSizeRatio (availableStreams ! previewIdx);
          listenerSizeRatio = streamSizeRatio (availableStreams ! i);
          lpRatioDiff = f32_fabs (f32_sub listenerSizeRatio previewSizeRatio);
          lvRatioDiff = f32_fabs (f32_sub listenerSizeRatio videoSizeRatio)
      in if f32_le (f32_fabs (f32_sub lpRatioDiff lvRatioDiff)) (round_f32 (1 / 1000000))
         then (if streamSizeEQ (availableStreams ! i) (availableStreams ! videoIdx)
               then IMGU_NODE_VIDEO
               else if streamSizeEQ (availableStreams ! i) (availableStreams ! previewIdx)
               then IMGU_NODE_VF_PREVIEW
               else if streamSizeGT (availableStreams ! previewIdx) (availableStreams ! videoIdx)
               then IMGU_NODE_VF_PREVIEW
               else IMGU_NODE_VIDEO)
         else if f32_lt lpRatioDiff lvRatioDiff
         then (if streamSizeGE (availableStreams ! previewIdx) (availableStreams ! i)
               then IMGU_NODE_VF_PREVIEW else IMGU_NODE_VIDEO)
         else (if streamSizeGE (availableStreams ! videoIdx) (availableStreams ! i)
               then IMGU_NODE_VIDEO else IMGU_NODE_VF_PREVIEW))"

definition findListeners ::
  "camera3_stream_t list \<Rightarrow> nat \<Rightarrow> nat \<Rightarrow> (nat \<times> NodeTypes) list" where
  "findListeners availableStreams videoIdx previewIdx =
     map (\<lambda>i. (i, listenerNode availableStreams videoIdx previewIdx i))
         (filter (\<lambda>i. i \<noteq> videoIdx \<and> i \<noteq> previewIdx) [0..<length availableStreams])"

text \<open>
  The index selection of \<open>mapStreamWithDeviceNode\<close>, after the maps are cleared:
  \<open>Inl\<close> is the error return of the last branch, \<open>Inr (videoIdx, previewIdx, listeners)\<close>
  otherwise, with \<open>None\<close> for \<open>previewIdx == -1\<close>.
\<close>

definition selectNodes ::
  "nat \<Rightarrow> nat \<Rightarrow> camera3_stream_t list \<Rightarrow>
   status_t + (nat \<times> nat option \<times> (nat \<times> NodeTypes) list)" where
  "selectNodes blobNum yuvNum availableStreams =
     (let streamNum = blobNum + yuvNum in
      if streamNum = 1 then Inr (0, None, [])
      else if streamNum = 2 then
        (let videoIdx = (if streamSizeGE (availableStreams ! 0) (availableStreams ! 1)
                         then 0 else 1);
             previewIdx = (if videoIdx \<noteq> 0 then 0 else 1)
         in Inr (videoIdx, Some previewIdx, []))
      else if yuvNum \<ge> 2 \<and> blobNum = 1 then
        (let videoIdx = findVideoIdx availableStreams;
             previewIdx = findPreviewIdx availableStreams videoIdx
         in Inr (videoIdx, Some previewIdx,
                 findListeners availableStreams videoIdx previewIdx))
      else Inl UNKNOWN_ERROR)"

definition setPreview :: "camera3_stream_t \<Rightarrow> 'a Mapping_scheme \<Rightarrow> 'a Mapping_scheme" where
  "setPreview s m =
     (let m1 = m\<lparr>mStreamNodeMapping := (mStreamNodeMapping m)(IMGU_NODE_VF_PREVIEW \<mapsto> Some s)\<rparr>;
          vf = (case mStreamNodeMapping m1 IMGU_NODE_VF_PREVIEW of
                  Some p \<Rightarrow> p | None \<Rightarrow> None)
      in m1\<lparr>mStreamNodeMapping := (mStreamNodeMapping m1)(IMGU_NODE_PV_PREVIEW \<mapsto> vf)\<rparr>)"

definition setVideo :: "camera3_stream_t \<Rightarrow> 'a Mapping_scheme \<Rightarrow> 'a Mapping_scheme" where
  "setVideo s m = m\<lparr>mStreamNodeMapping := (mStreamNodeMapping m)(IMGU_NODE_VIDEO \<mapsto> Some s)\<rparr>"

definition setListeners ::
  "camera3_stream_t list \<Rightarrow> (nat \<times> NodeTypes) list \<Rightarrow>
   'a Mapping_scheme \<Rightarrow> 'a Mapping_scheme" where
  "setListeners availableStreams listeners m =
     fold (\<lambda>iter m'. m'\<lparr>mStreamListenerMapping :=
                           listenerAssign (mStreamListenerMapping m')
                                          (availableStreams ! fst iter) (snd iter)\<rparr>)
          listeners m"

definition mapStreamWithDeviceNode :: "'a Mapping_scheme \<Rightarrow> status_t \<times> 'a Mapping_scheme" where
  "mapStreamWithDeviceNode m =
     (let blobNum = length (blobStreams (mActiveStreams m));
          yuvNum = length (yuvStreams (mActiveStreams m))
      in if blobNum > 1 then (BAD_VALUE, m)
         else
           let m1 = m\<lparr>mStreamNodeMapping := Map.empty, mStreamListenerMapping := []\<rparr>;
               availableStreams =
                 (if blobNum \<noteq> 0
                  then blobStreams (mActiveStreams m) ! 0 # yuvStreams (mActiveStreams m)
                  else yuvStreams (mActiveStreams m))
           in case selectNodes blobNum yuvNum availableStreams of
                Inl err \<Rightarrow> (err, m1)
              | Inr (videoIdx, previewIdx, listeners) \<Rightarrow>
                  let m2 = (case previewIdx of
                              None \<Rightarrow> m1
                            | Some p \<Rightarrow> setPreview (availableStreams ! p) m1);
                      m3 = setVideo (availableStreams ! videoIdx) m2
                  in (OK, setListeners availableStreams listeners m3))"

section \<open>Workers, requests and messages\<close>

text \<open>
  A \<open>std::shared_ptr<V4L2VideoNode>\<close> is a handle or \<open>nullptr\<close> (\<open>None\<close>). The two
  worker classes carry their constructor arguments; \<open>getNode\<close> of an
  \<open>InputFrameWorker\<close>, which is built without a node, is \<open>nullptr\<close>.
\<close>

type_synonym node = "nat option"

datatype worker =
  OutputFrameWorker node "camera3_stream_t option" NodeTypes nat
| InputFrameWorker camera3_stream_t "camera3_stream_t list" nat

fun getNode :: "worker \<Rightarrow> node" where
  "getNode (OutputFrameWorker n s name depth) = n"
| "getNode (InputFrameWorker s outs depth) = None"

record PipeConfiguration =
  deviceWorkers :: "worker list"
  pollableWorkers :: "worker list"
  nodes :: "node list"

datatype pipe_index = PIPE_VIDEO_INDEX | PIPE_STILL_INDEX

text \<open>
  A \<open>Camera3Request\<close> as the controller reads it: \<open>getId()\<close> and the size of
  \<open>*getInputBuffers()\<close>. Its error flag belongs to the caller's object; \<open>setError()\<close>
  is logged as a call.
\<close>

record Camera3Request =
  getId :: int
  getInputBuffers :: nat

record PollEvent =
  requestId :: "32 word"
  numDevices :: int
  polledDevices :: int
  activeDevices :: "node list option"

datatype DeviceMessage =
  MESSAGE_ID_EXIT
| MESSAGE_COMPLETE_REQ "Camera3Request option"
| MESSAGE_ID_POLL PollEvent
| MESSAGE_ID_FLUSH

fun isPollMessage :: "DeviceMessage \<Rightarrow> bool" where
  "isPollMessage (MESSAGE_ID_POLL ev) = True"
| "isPollMessage _ = False"

text \<open>
  Modelled from the spec: the controller states \<open>Idle\<close>, \<open>Configured\<close>, \<open>Running\<close>,
  \<open>Flushing\<close>; the enumeration is declared outside the source, which names only
  \<open>IMGU_IDLE\<close>.
\<close>

datatype ImguState = IMGU_IDLE | IMGU_CONFIGURED | IMGU_RUNNING | IMGU_FLUSHING

datatype media_type = CIO2 | IMGU_COMMON | IMGU_STILL | IMGU_VIDEO

text \<open>
  Every call the controller makes on a collaborator (Workers, Poller, listening tasks,
  capture-event listeners, the error callback, the caller's request objects) is appended
  to a log, in program order.
\<close>

datatype effect =
  Settings nat Camera3Request
| StartWorker worker
| StopWorker worker
| PrepareRun worker Camera3Request
| AsyncPollDone worker Camera3Request
| Run worker
| PostRun worker
| DeviceError worker
| ErrCbDeviceError
| PollerFlush bool
| PollerInit "node list"
| PollRequest int nat "node list"
| SetError int
| NotifyCaptureEvent nat int
| SetPipeType
| MediaCtlConfigure media_type
| MediaCtlConfigurePipe media_type
| Configure worker
| AddListener worker camera3_stream_t
| AttachListener worker nat

text \<open>
  What the collaborators answer. \<open>run()\<close> and \<open>postRun()\<close> take no argument; their
  answers are indexed by the request being drained, so that they may differ from one
  request to the next.
\<close>

record collab =
  settings :: "nat \<Rightarrow> Camera3Request \<Rightarrow> status_t"
  startWorker :: "worker \<Rightarrow> status_t"
  stopWorker :: "worker \<Rightarrow> status_t"
  prepareRun :: "worker \<Rightarrow> Camera3Request \<Rightarrow> status_t"
  asyncPollDone :: "worker \<Rightarrow> Camera3Request \<Rightarrow> status_t"
  run :: "worker \<Rightarrow> Camera3Request \<Rightarrow> status_t"
  postRun :: "worker \<Rightarrow> Camera3Request \<Rightarrow> status_t"
  needPolling :: "worker \<Rightarrow> bool"
  pollRequest :: status_t

text \<open>
  The members of \<open>ImguUnit\<close>. \<open>mListeningTasks\<close> holds task handles (\<open>None\<close> a null
  one), \<open>mListeners\<close> listener handles, \<open>mErrCb\<close> tells whether an error callback is
  registered, \<open>mMessageQueue\<close> is the FIFO of the message thread.
\<close>

record ImguUnit = Mapping +
  mState :: ImguState
  mThreadRunning :: bool
  mMessageQueue :: "DeviceMessage list"
  mPipeConfigs :: "pipe_index \<Rightarrow> PipeConfiguration"
  mCurPipeConfig :: "pipe_index option"
  mListenerDeviceWorkers :: "worker list"
  mListeningTasks :: "nat option list"
  mListeners :: "nat list"
  mMessagesPending :: "Camera3Request option list"
  mMessagesUnderwork :: "Camera3Request list"
  mDelayProcessRequest :: "32 word list"
  mRequestToWorkMap :: "int \<Rightarrow> worker list option"
  mFlushing :: bool
  mFirstRequest :: bool
  mNeedRestartPoll :: bool
  mErrCb :: bool
  mTakingPicture :: bool
  mConfiguredNodesPerName :: "(NodeTypes \<times> node) list"
  calls :: "effect list"

definition emit :: "effect list \<Rightarrow> ImguUnit \<Rightarrow> ImguUnit" where
  "emit es st = st\<lparr>calls := calls st @ es\<rparr>"

definition emptyPipe :: PipeConfiguration where
  "emptyPipe = \<lparr>deviceWorkers = [], pollableWorkers = [], nodes = []\<rparr>"

text \<open>The constructor.\<close>

definition ImguUnit_new :: ImguUnit where
  "ImguUnit_new =
     \<lparr>mActiveStreams = \<lparr>blobStreams = [], rawStreams = [], yuvStreams = [],
                          inputStream = None\<rparr>,
      mStreamNodeMapping = Map.empty, mStreamListenerMapping = [],
      mState = IMGU_IDLE, mThreadRunning = False, mMessageQueue = [],
      mPipeConfigs = (\<lambda>i. emptyPipe), mCurPipeConfig = None,
      mListenerDeviceWorkers = [], mListeningTasks = [], mListeners = [],
      mMessagesPending = [], mMessagesUnderwork = [], mDelayProcessRequest = [],
      mRequestToWorkMap = Map.empty,
      mFlushing = False, mFirstRequest = True, mNeedRestartPoll = True, mErrCb = False,
      mTakingPicture = False, mConfiguredNodesPerName = [], calls = []\<rparr>"

definition clearWorkers :: "ImguUnit \<Rightarrow> ImguUnit" where
  "clearWorkers st = st\<lparr>mPipeConfigs := (\<lambda>i. emptyPipe), mListenerDeviceWorkers := []\<rparr>"

text \<open>\<open>mCurPipeConfig->nodes\<close>; dereferencing a null \<open>mCurPipeConfig\<close> has no result.\<close>

definition curPipe :: "ImguUnit \<Rightarrow> PipeConfiguration option" where
  "curPipe st = map_option (mPipeConfigs st) (mCurPipeConfig st)"

definition setCurNodes :: "node list \<Rightarrow> ImguUnit \<Rightarrow> ImguUnit option" where
  "setCurNodes ns st =
     (case mCurPipeConfig st of
        None \<Rightarrow> None
      | Some i \<Rightarrow> Some (st\<lparr>mPipeConfigs := (mPipeConfigs st)(i := (mPipeConfigs st i)\<lparr>nodes := ns\<rparr>)\<rparr>))"

section \<open>Request admission\<close>

fun startWorkers :: "collab \<Rightarrow> worker list \<Rightarrow> status_t \<times> effect list" where
  "startWorkers e [] = (OK, [])"
| "startWorkers e (w # ws) =
     (if startWorker e w \<noteq> OK then (startWorker e w, [StartWorker w])
      else let (status, es) = startWorkers e ws in (status, StartWorker w # es))"

definition kickstart :: "collab \<Rightarrow> ImguUnit \<Rightarrow> (status_t \<times> ImguUnit) option" where
  "kickstart e st =
     (case curPipe st of
        None \<Rightarrow> None
      | Some cfg \<Rightarrow>
          let (status, es) = startWorkers e (deviceWorkers cfg);
              st1 = emit es st
          in if status \<noteq> OK then Some (status, st1)
             else Some (status, st1\<lparr>mFirstRequest := False\<rparr>))"

text \<open>
  The loop over \<open>mListeningTasks\<close>: \<open>None\<close> is the return on a null task, otherwise the
  accumulated status.
\<close>

fun settingsLoop ::
  "collab \<Rightarrow> nat option list \<Rightarrow> Camera3Request \<Rightarrow> status_t \<Rightarrow> status_t option \<times> effect list" where
  "settingsLoop e [] request status = (Some status, [])"
| "settingsLoop e (None # ts) request status = (None, [])"
| "settingsLoop e (Some lTask # ts) request status =
     (let (res, es) = settingsLoop e ts request (status OR settings e lTask request)
      in (res, Settings lTask request # es))"

text \<open>
  The loop over \<open>deviceWorkers\<close>: the third component is the Worker at which the dummy
  poll event was built and the function returned, if any.
\<close>

fun prepareLoop ::
  "collab \<Rightarrow> Camera3Request \<Rightarrow> worker list \<Rightarrow> status_t \<Rightarrow>
   status_t \<times> effect list \<times> worker option" where
  "prepareLoop e request [] status = (status, [], None)"
| "prepareLoop e request (w # ws) status =
     (if getNode w = None \<and> getInputBuffers request > 0
      then (status OR prepareRun e w request, [PrepareRun w request], Some w)
      else let (status1, es, dummy) = prepareLoop e request ws (status OR prepareRun e w request)
           in (status1, PrepareRun w request # es, dummy))"

definition boundWorkers :: "ImguUnit \<Rightarrow> int \<Rightarrow> worker list" where
  "boundWorkers st i = (case mRequestToWorkMap st i of None \<Rightarrow> [] | Some ws \<Rightarrow> ws)"

definition bindWorkers :: "int \<Rightarrow> worker list \<Rightarrow> ImguUnit \<Rightarrow> ImguUnit" where
  "bindWorkers i ws st =
     st\<lparr>mRequestToWorkMap := (mRequestToWorkMap st)(i \<mapsto> boundWorkers st i @ ws)\<rparr>"

definition dummyMsg :: "Camera3Request \<Rightarrow> DeviceMessage" where
  "dummyMsg request =
     MESSAGE_ID_POLL \<lparr>requestId = word_of_int (getId request), numDevices = 0,
                      polledDevices = 0, activeDevices = None\<rparr>"

definition send :: "DeviceMessage \<Rightarrow> ImguUnit \<Rightarrow> ImguUnit" where
  "send msg st = st\<lparr>mMessageQueue := mMessageQueue st @ [msg]\<rparr>"

text \<open>\<open>processNextRequest\<close> from \<open>mCurPipeConfig->nodes.clear()\<close> to its end.\<close>

definition processNextRequest_workers ::
  "collab \<Rightarrow> Camera3Request \<Rightarrow> status_t \<Rightarrow> ImguUnit \<Rightarrow> (status_t \<times> ImguUnit) option" where
  "processNextRequest_workers e request status st =
     do {
       st1 \<leftarrow> setCurNodes [] st;
       let st2 = st1\<lparr>mRequestToWorkMap := (mRequestToWorkMap st1)(getId request \<mapsto> [])\<rparr>;
       cfg \<leftarrow> curPipe st2;
       let (status1, es, dummy) = prepareLoop e request (deviceWorkers cfg) status;
       (case dummy of
          Some w \<Rightarrow>
            Some (status1, send (dummyMsg request) (emit es (bindWorkers (getId request) [w] st2)))
        | None \<Rightarrow>
            do {
              let pollers = filter (needPolling e) (pollableWorkers cfg);
              st3 \<leftarrow> setCurNodes (if getInputBuffers request = 0 then map getNode pollers else [])
                                (emit es st2);
              Some (status1, bindWorkers (getId request) pollers st3)
            })
     }"

definition processNextRequest :: "collab \<Rightarrow> ImguUnit \<Rightarrow> (status_t \<times> ImguUnit) option" where
  "processNextRequest e st =
     (case mMessagesPending st of
        [] \<Rightarrow> Some (NO_ERROR, st)
      | msg # rest \<Rightarrow>
          (case msg of
             None \<Rightarrow> Some (NO_ERROR, st\<lparr>mMessagesPending := rest\<rparr>)
           | Some request \<Rightarrow>
               let st1 = st\<lparr>mMessagesPending := rest,
                             mMessagesUnderwork := mMessagesUnderwork st @ [request]\<rparr>;
                   (res, es) = settingsLoop e (mListeningTasks st1) request NO_ERROR;
                   st2 = emit es st1
               in (case res of
                     None \<Rightarrow> Some (UNKNOWN_ERROR, st2)
                   | Some status \<Rightarrow>
                       if mFirstRequest st2
                       then do {
                              (ks, st3) \<leftarrow> kickstart e st2;
                              if ks \<noteq> OK then Some (ks, st3)
                              else processNextRequest_workers e request ks st3
                            }
                       else processNextRequest_workers e request status st2)))"

definition handleMessageCompleteReq ::
  "collab \<Rightarrow> Camera3Request option \<Rightarrow> ImguUnit \<Rightarrow> (status_t \<times> ImguUnit) option" where
  "handleMessageCompleteReq e msg st =
     (case msg of
        None \<Rightarrow> Some (BAD_VALUE, st)
      | Some request \<Rightarrow>
          do {
            st1 \<leftarrow> setCurNodes [] (st\<lparr>mMessagesPending := mMessagesPending st @ [Some request]\<rparr>);
            (status, st2) \<leftarrow> processNextRequest e st1;
            let st3 = (if status \<noteq> OK then emit [SetError (getId request)] st2 else st2);
            cfg \<leftarrow> curPipe st3;
            if nodes cfg \<noteq> []
            then Some (status OR pollRequest e,
                       emit [PollRequest (getId request) 3000 (nodes cfg)] st3)
            else Some (status, st3)
          })"

section \<open>Completion handling\<close>

text \<open>
  The \<open>for\<close> loop over \<open>mDelayProcessRequest\<close>: how many leading entries equal
  \<open>startId\<close>, \<open>startId + 1\<close>, ... (unsigned, so the increment wraps).
\<close>

fun matchDelay :: "32 word list \<Rightarrow> 32 word \<Rightarrow> nat" where
  "matchDelay [] startId = 0"
| "matchDelay (d # ds) startId =
     (if d \<noteq> startId then 0 else Suc (matchDelay ds (startId + 1)))"

definition runBoundWorkers ::
  "collab \<Rightarrow> Camera3Request \<Rightarrow> worker list \<Rightarrow> status_t \<Rightarrow> status_t \<times> effect list" where
  "runBoundWorkers e request ws status =
     (let status1 = fold (\<lambda>w s. s OR asyncPollDone e w request) ws status;
          status2 = fold (\<lambda>w s. s OR run e w request) ws status1;
          status3 = fold (\<lambda>w s. s OR postRun e w request) ws status2
      in (status3,
          map (\<lambda>w. AsyncPollDone w request) ws @ map Run ws @ map PostRun ws))"

text \<open>
  What the body of the last loop of \<open>startProcessing\<close> does after the three Worker
  phases of the request at the head of \<open>mMessagesUnderwork\<close>.
\<close>

definition retire :: "bool \<Rightarrow> status_t \<Rightarrow> Camera3Request \<Rightarrow> ImguUnit \<Rightarrow> ImguUnit" where
  "retire deviceError status request st =
     (let st1 = st\<lparr>mRequestToWorkMap := (mRequestToWorkMap st)(getId request := None)\<rparr>;
          st2 = (if status \<noteq> OK \<or> deviceError then emit [SetError (getId request)] st1
                 else st1);
          st3 = emit (map (\<lambda>listener. NotifyCaptureEvent listener (getId request))
                          (mListeners st2)) st2
      in st3\<lparr>mMessagesUnderwork := tl (mMessagesUnderwork st3)\<rparr>)"

text \<open>
  The last loop of \<open>startProcessing\<close>, \<open>processReqNum\<close> iterations; reading
  \<open>*mMessagesUnderwork.begin()\<close> of an empty vector has no result.
\<close>

fun processRequests ::
  "collab \<Rightarrow> bool \<Rightarrow> nat \<Rightarrow> status_t \<Rightarrow> ImguUnit \<Rightarrow> (status_t \<times> ImguUnit) option" where
  "processRequests e deviceError 0 status st = Some (status, st)"
| "processRequests e deviceError (Suc n) status st =
     (case mMessagesUnderwork st of
        [] \<Rightarrow> None
      | request # rest \<Rightarrow>
          let (status1, es) =
                runBoundWorkers e request (boundWorkers st (getId request)) status
          in processRequests e deviceError n status1
               (retire deviceError status1 request (emit es st)))"

definition startProcessing ::
  "collab \<Rightarrow> PollEvent \<Rightarrow> ImguUnit \<Rightarrow> (status_t \<times> ImguUnit) option" where
  "startProcessing e pollEvent st =
     (let deviceError = (polledDevices pollEvent \<noteq> 0 \<and> activeDevices pollEvent = None) in
      case mMessagesUnderwork st of
        [] \<Rightarrow> Some (OK, st)
      | request # rest \<Rightarrow>
          let reqId = requestId pollEvent;
              expected = (word_of_int (getId request) :: 32 word)
          in if expected < reqId
             then Some (OK, st\<lparr>mDelayProcessRequest := mDelayProcessRequest st @ [reqId]\<rparr>)
             else if expected > reqId then Some (UNKNOWN_ERROR, st)
             else
               let i = matchDelay (mDelayProcessRequest st) (reqId + 1);
                   st1 = st\<lparr>mDelayProcessRequest := drop i (mDelayProcessRequest st)\<rparr>
               in if deviceError \<and> getInputBuffers request = 0
                  then do {
                         cfg \<leftarrow> curPipe st1;
                         let st2 = emit (map DeviceError (deviceWorkers cfg)
                                         @ (if mErrCb st1 then [ErrCbDeviceError] else [])
                                         @ [PollerFlush False]) st1;
                         processRequests e deviceError (length (mMessagesUnderwork st2)) OK st2
                       }
                  else processRequests e deviceError (1 + i) OK st1)"

section \<open>Poll events, flush and the message loop\<close>

datatype poll_event_id = POLL_EVENT_ID_EVENT | POLL_EVENT_ID_ERROR | POLL_EVENT_ID_OTHER int

record PollEventMessage =
  pm_id :: poll_event_id
  pm_reqId :: "32 word"
  pm_activeDevices :: "node list option"
  pm_polledDevices :: "node list"
  pm_inactiveDevices :: "node list"

text \<open>
  \<open>notifyPollEvent\<close> returns its status and the poll message as it leaves it (the retry
  case overwrites \<open>polledDevices\<close>). The message of the error branch leaves
  \<open>activeDevices\<close> as a fresh \<open>DeviceMessage\<close> has it, null.
\<close>

definition notifyPollEvent ::
  "PollEventMessage option \<Rightarrow> ImguUnit \<Rightarrow> status_t \<times> PollEventMessage option \<times> ImguUnit" where
  "notifyPollEvent pollMsg st =
     (case pollMsg of
        None \<Rightarrow> (BAD_VALUE, pollMsg, st)
      | Some pm \<Rightarrow>
          (case pm_activeDevices pm of
             None \<Rightarrow> (BAD_VALUE, pollMsg, st)
           | Some active \<Rightarrow>
               if pm_id pm = POLL_EVENT_ID_EVENT then
                 if length active = 0 then (OK, pollMsg, st)
                 else if length (pm_polledDevices pm) = 0 then (OK, pollMsg, st)
                 else if length active \<noteq> length (pm_polledDevices pm)
                 then (- EAGAIN, Some (pm\<lparr>pm_polledDevices := pm_inactiveDevices pm\<rparr>), st)
                 else if mFlushing st then (OK, pollMsg, st)
                 else (OK, pollMsg,
                       send (MESSAGE_ID_POLL
                               \<lparr>requestId = pm_reqId pm, numDevices = int (length active),
                                polledDevices = int (length (pm_polledDevices pm)),
                                activeDevices = Some active\<rparr>) st)
               else if pm_id pm = POLL_EVENT_ID_ERROR then
                 (OK, pollMsg,
                  send (MESSAGE_ID_POLL
                          \<lparr>requestId = pm_reqId pm, numDevices = 0,
                           polledDevices = int (length (pm_polledDevices pm)),
                           activeDevices = None\<rparr>) st)
               else (OK, pollMsg, st)))"

definition completeRequest :: "Camera3Request option \<Rightarrow> ImguUnit \<Rightarrow> status_t \<times> ImguUnit" where
  "completeRequest request st =
     (case request of
        None \<Rightarrow> (UNKNOWN_ERROR, st)
      | Some r \<Rightarrow> (NO_ERROR, send (MESSAGE_COMPLETE_REQ (Some r)) st))"

definition attachListener :: "nat \<Rightarrow> ImguUnit \<Rightarrow> status_t \<times> ImguUnit" where
  "attachListener aListener st = (OK, st\<lparr>mListeners := mListeners st @ [aListener]\<rparr>)"

text \<open>
  \<open>flush\<close>: \<open>mMessageQueue.remove(MESSAGE_ID_POLL)\<close> takes the poll messages not yet
  delivered out of the queue.
\<close>

definition flush :: "ImguUnit \<Rightarrow> ImguUnit" where
  "flush st =
     send MESSAGE_ID_FLUSH
       (st\<lparr>mFlushing := True,
           mMessageQueue := filter (\<lambda>m. \<not> isPollMessage m) (mMessageQueue st)\<rparr>)"

text \<open>The loop of \<open>handleMessageFlush\<close>: \<open>Some status\<close> is its early return.\<close>

fun stopWorkers :: "collab \<Rightarrow> worker list \<Rightarrow> status_t option \<times> effect list" where
  "stopWorkers e [] = (None, [])"
| "stopWorkers e (w # ws) =
     (if stopWorker e w \<noteq> OK then (Some (stopWorker e w), [StopWorker w])
      else let (res, es) = stopWorkers e ws in (res, StopWorker w # es))"

definition handleMessageFlush :: "collab \<Rightarrow> ImguUnit \<Rightarrow> status_t \<times> ImguUnit" where
  "handleMessageFlush e st =
     (let st1 = emit [PollerFlush True] st in
      case curPipe st1 of
        None \<Rightarrow> (NO_ERROR, clearWorkers st1)
      | Some cfg \<Rightarrow>
          let (res, es) = stopWorkers e (deviceWorkers cfg);
              st2 = emit es st1
          in (case res of
                Some status \<Rightarrow> (status, st2)
              | None \<Rightarrow> (NO_ERROR, clearWorkers st2)))"

text \<open>One iteration of \<open>messageThreadLoop\<close> on a received message.\<close>

fun handleMessage ::
  "collab \<Rightarrow> DeviceMessage \<Rightarrow> ImguUnit \<Rightarrow> (status_t \<times> ImguUnit) option" where
  "handleMessage e MESSAGE_ID_EXIT st = Some (NO_ERROR, st\<lparr>mThreadRunning := False\<rparr>)"
| "handleMessage e (MESSAGE_COMPLETE_REQ request) st = handleMessageCompleteReq e request st"
| "handleMessage e (MESSAGE_ID_POLL pollEvent) st = startProcessing e pollEvent st"
| "handleMessage e MESSAGE_ID_FLUSH st = Some (handleMessageFlush e st)"

section \<open>Configuration\<close>

text \<open>
  What the Link Configurator (\<open>MediaCtlHelper\<close>, \<open>GraphConfigManager\<close>), the platform
  metadata, the Workers' \<open>configure\<close> and the Poller's \<open>init\<close> answer during one
  \<open>configStreams\<close>. \<open>getConfiguredNodesPerName\<close> is listed in the iteration order of
  the \<open>std::map\<close>.
\<close>

record cfg_env =
  graphConfigNull :: bool
  configureCIO2 :: status_t
  configureImguCommon :: status_t
  hasImguStill :: bool
  configurePipeStill :: status_t
  hasImguVideo :: bool
  configurePipeVideo :: status_t
  getConfiguredNodesPerName :: "(NodeTypes \<times> node) list"
  pipelineDepth :: nat
  configure :: "worker \<Rightarrow> status_t"
  pollerInit :: status_t

definition setStreamListeners :: "NodeTypes \<Rightarrow> worker \<Rightarrow> ImguUnit \<Rightarrow> ImguUnit" where
  "setStreamListeners nodeName source st =
     emit (map (\<lambda>it. AddListener source (fst it))
               (filter (\<lambda>it. snd it = nodeName) (mStreamListenerMapping st))) st"

text \<open>\<open>mStreamNodeMapping[name]\<close> as an rvalue: an absent key is inserted with \<open>nullptr\<close>.\<close>

definition nodeStream :: "NodeTypes \<Rightarrow> ImguUnit \<Rightarrow> camera3_stream_t option \<times> ImguUnit" where
  "nodeStream name st =
     (case mStreamNodeMapping st name of
        Some s \<Rightarrow> (s, st)
      | None \<Rightarrow> (None, st\<lparr>mStreamNodeMapping := (mStreamNodeMapping st)(name \<mapsto> None)\<rparr>))"

definition updPipe ::
  "pipe_index \<Rightarrow> (PipeConfiguration \<Rightarrow> PipeConfiguration) \<Rightarrow> ImguUnit \<Rightarrow> ImguUnit" where
  "updPipe i f st = st\<lparr>mPipeConfigs := (mPipeConfigs st)(i := f (mPipeConfigs st i))\<rparr>"

definition pushBackWorker :: "worker \<Rightarrow> PipeConfiguration \<Rightarrow> PipeConfiguration" where
  "pushBackWorker w cfg =
     cfg\<lparr>deviceWorkers := deviceWorkers cfg @ [w],
         pollableWorkers := pollableWorkers cfg @ [w],
         nodes := nodes cfg @ [getNode w]\<rparr>"

definition insertFrontWorker :: "worker \<Rightarrow> PipeConfiguration \<Rightarrow> PipeConfiguration" where
  "insertFrontWorker w cfg =
     cfg\<lparr>deviceWorkers := w # deviceWorkers cfg,
         pollableWorkers := w # pollableWorkers cfg,
         nodes := getNode w # nodes cfg\<rparr>"

text \<open>
  The loop over \<open>mConfiguredNodesPerName\<close>, carrying \<open>vfWorker\<close> and \<open>pvWorker\<close>;
  \<open>None\<close> in the result is the return on an unknown node name.
\<close>

fun createWorkers ::
  "nat \<Rightarrow> (NodeTypes \<times> node) list \<Rightarrow> worker option \<Rightarrow> worker option \<Rightarrow> ImguUnit \<Rightarrow>
   (worker option \<times> worker option) option \<times> ImguUnit" where
  "createWorkers depth [] vfWorker pvWorker st = (Some (vfWorker, pvWorker), st)"
| "createWorkers depth (it # rest) vfWorker pvWorker st =
     (if fst it = IMGU_NODE_STILL \<or> fst it = IMGU_NODE_VIDEO then
        let (stream, st1) = nodeStream (fst it) st;
            outWorker = OutputFrameWorker (snd it) stream (fst it) depth;
            st2 = updPipe PIPE_VIDEO_INDEX (pushBackWorker outWorker) st1;
            st3 = setStreamListeners (fst it) outWorker st2
        in createWorkers depth rest vfWorker pvWorker
             (st3\<lparr>mListenerDeviceWorkers := mListenerDeviceWorkers st3 @ [outWorker]\<rparr>)
      else if fst it = IMGU_NODE_VF_PREVIEW then
        let (stream, st1) = nodeStream (fst it) st;
            w = OutputFrameWorker (snd it) stream (fst it) depth;
            st2 = setStreamListeners (fst it) w st1
        in createWorkers depth rest (Some w) pvWorker
             (st2\<lparr>mListenerDeviceWorkers := mListenerDeviceWorkers st2 @ [w]\<rparr>)
      else if fst it = IMGU_NODE_PV_PREVIEW then
        let (stream, st1) = nodeStream (fst it) st;
            w = OutputFrameWorker (snd it) stream (fst it) depth;
            st2 = setStreamListeners (fst it) w st1
        in createWorkers depth rest vfWorker (Some w)
             (st2\<lparr>mListenerDeviceWorkers := mListenerDeviceWorkers st2 @ [w]\<rparr>)
      else if fst it = IMGU_NODE_RAW then createWorkers depth rest vfWorker pvWorker st
      else (None, st))"

text \<open>The still pipe and the video pipe, once the Workers exist.\<close>

definition prepareStillPipe :: "worker option \<Rightarrow> ImguUnit \<Rightarrow> ImguUnit" where
  "prepareStillPipe pvWorker st =
     (case pvWorker of
        None \<Rightarrow> st
      | Some pv \<Rightarrow>
          let st1 = updPipe PIPE_STILL_INDEX
                      (\<lambda>c. insertFrontWorker pv (mPipeConfigs st PIPE_VIDEO_INDEX)) st
          in if mCurPipeConfig st1 = Some PIPE_VIDEO_INDEX then emit [Configure pv] st1
             else st1)"

definition prepareVideoPipe :: "worker option \<Rightarrow> worker option \<Rightarrow> ImguUnit \<Rightarrow> ImguUnit" where
  "prepareVideoPipe vfWorker pvWorker st =
     (case vfWorker of
        None \<Rightarrow> st
      | Some vf \<Rightarrow>
          let st1 = updPipe PIPE_VIDEO_INDEX (insertFrontWorker vf) st;
              st2 = (if pvWorker \<noteq> None then setStreamListeners IMGU_NODE_PV_PREVIEW vf st1
                     else st1)
          in if mCurPipeConfig st2 = Some PIPE_STILL_INDEX then emit [Configure vf] st2
             else st2)"

definition addInputWorker :: "nat \<Rightarrow> ImguUnit \<Rightarrow> ImguUnit" where
  "addInputWorker depth st =
     (case inputStream (mActiveStreams st) of
        None \<Rightarrow> st
      | Some input \<Rightarrow>
          let outStreams = yuvStreams (mActiveStreams st) @ blobStreams (mActiveStreams st);
              inWorker = InputFrameWorker input outStreams depth;
              st1 = updPipe PIPE_VIDEO_INDEX
                      (\<lambda>c. c\<lparr>deviceWorkers := inWorker # deviceWorkers c\<rparr>) st
          in st1\<lparr>mListenerDeviceWorkers := mListenerDeviceWorkers st1 @ [inWorker]\<rparr>)"

text \<open>The loop configuring the Workers of the current pipe: \<open>Some ret\<close> is its early return.\<close>

fun configureWorkers :: "cfg_env \<Rightarrow> worker list \<Rightarrow> status_t option \<times> effect list" where
  "configureWorkers c [] = (None, [])"
| "configureWorkers c (w # ws) =
     (if configure c w \<noteq> OK then (Some (configure c w), [Configure w])
      else let (res, es) = configureWorkers c ws in (res, Configure w # es))"

text \<open>\<open>createProcessingTasks\<close> from the call of \<open>mapStreamWithDeviceNode\<close> on.\<close>

definition createProcessingTasks_workers :: "cfg_env \<Rightarrow> ImguUnit \<Rightarrow> status_t \<times> ImguUnit" where
  "createProcessingTasks_workers c st =
     (let (mapped, st1) = mapStreamWithDeviceNode st in
      if mapped \<noteq> OK then (UNKNOWN_ERROR, st1)
      else
        case createWorkers (pipelineDepth c) (mConfiguredNodesPerName st1) None None st1 of
          (None, st2) \<Rightarrow> (UNKNOWN_ERROR, st2)
        | (Some (vfWorker, pvWorker), st2) \<Rightarrow>
            let st3 = prepareStillPipe pvWorker st2;
                st4 = prepareVideoPipe vfWorker pvWorker st3;
                st5 = addInputWorker (pipelineDepth c) st4;
                (res, es) = configureWorkers c
                              (case curPipe st5 of None \<Rightarrow> [] | Some cfg \<Rightarrow> deviceWorkers cfg);
                st6 = emit es st5
            in (case res of
                  Some ret \<Rightarrow> (ret, st6)
                | None \<Rightarrow>
                    (OK, emit (concat (map (\<lambda>w. map (AttachListener w) (mListeners st6))
                                           (mListenerDeviceWorkers st6))) st6)))"

definition createProcessingTasks :: "cfg_env \<Rightarrow> ImguUnit \<Rightarrow> status_t \<times> ImguUnit" where
  "createProcessingTasks c st =
     (if graphConfigNull c then (UNKNOWN_ERROR, st)
      else
        let st1 = emit [MediaCtlConfigure CIO2]
                    ((clearWorkers st)\<lparr>mCurPipeConfig := Some PIPE_VIDEO_INDEX\<rparr>)
        in if configureCIO2 c \<noteq> OK then (configureCIO2 c, st1)
           else
             let st2 = emit [MediaCtlConfigure IMGU_COMMON] st1
             in if configureImguCommon c \<noteq> OK then (UNKNOWN_ERROR, st2)
                else
                  let st3 = (if hasImguStill c then emit [MediaCtlConfigurePipe IMGU_STILL] st2
                             else st2)
                  in if hasImguStill c \<and> configurePipeStill c \<noteq> OK then (UNKNOWN_ERROR, st3)
                     else
                       let st4 = (if hasImguStill c
                                  then st3\<lparr>mCurPipeConfig := Some PIPE_STILL_INDEX\<rparr> else st3);
                           st5 = (if hasImguVideo c
                                  then emit [MediaCtlConfigurePipe IMGU_VIDEO] st4 else st4)
                       in if hasImguVideo c \<and> configurePipeVideo c \<noteq> OK
                          then (UNKNOWN_ERROR, st5)
                          else
                            let st6 = (if hasImguVideo c
                                       then st5\<lparr>mCurPipeConfig := Some PIPE_VIDEO_INDEX\<rparr>
                                       else st5);
                                st7 = st6\<lparr>mConfiguredNodesPerName :=
                                            getConfiguredNodesPerName c\<rparr>
                            in if length (mConfiguredNodesPerName st7) = 0
                               then (UNKNOWN_ERROR, st7)
                               else createProcessingTasks_workers c st7)"

text \<open>
  The loop of \<open>configStreams\<close> over the active streams; a blob stream calls
  \<open>graphConfig->setPipeType\<close>, which has no result on a null \<open>graphConfig\<close>.
\<close>

fun classifyStreams ::
  "bool \<Rightarrow> camera3_stream_t list \<Rightarrow> ImguUnit \<Rightarrow> ImguUnit option" where
  "classifyStreams gcNull [] st = Some st"
| "classifyStreams gcNull (s # rest) st =
     (let a = mActiveStreams st;
          a1 = (if stream_type s = CAMERA3_STREAM_INPUT \<or>
                   stream_type s = CAMERA3_STREAM_BIDIRECTIONAL
                then a\<lparr>inputStream := Some s\<rparr> else a)
      in if stream_type s = CAMERA3_STREAM_INPUT
         then classifyStreams gcNull rest (st\<lparr>mActiveStreams := a1\<rparr>)
         else
           (case format s of
              HAL_PIXEL_FORMAT_BLOB \<Rightarrow>
                if gcNull then None
                else classifyStreams gcNull rest
                       (emit [SetPipeType]
                          (st\<lparr>mActiveStreams := a1\<lparr>blobStreams := blobStreams a1 @ [s]\<rparr>\<rparr>))
            | HAL_PIXEL_FORMAT_YCbCr_420_888 \<Rightarrow>
                classifyStreams gcNull rest
                  (st\<lparr>mActiveStreams := a1\<lparr>yuvStreams := yuvStreams a1 @ [s]\<rparr>\<rparr>)
            | HAL_PIXEL_FORMAT_IMPLEMENTATION_DEFINED \<Rightarrow>
                classifyStreams gcNull rest
                  (st\<lparr>mActiveStreams := a1\<lparr>yuvStreams := s # yuvStreams a1\<rparr>\<rparr>)
            | HAL_PIXEL_FORMAT_OTHER f \<Rightarrow>
                classifyStreams gcNull rest (st\<lparr>mActiveStreams := a1\<rparr>)))"

definition configStreams ::
  "cfg_env \<Rightarrow> camera3_stream_t list \<Rightarrow> ImguUnit \<Rightarrow> (status_t \<times> ImguUnit) option" where
  "configStreams c activeStreams st =
     do {
       let st1 = st\<lparr>mActiveStreams := \<lparr>blobStreams = [], rawStreams = [], yuvStreams = [],
                                            inputStream = None\<rparr>,
                     mFirstRequest := True, mNeedRestartPoll := True, mCurPipeConfig := None,
                     mTakingPicture := False, mFlushing := False\<rparr>;
       st2 \<leftarrow> classifyStreams (graphConfigNull c) activeStreams st1;
       let (status, st3) = createProcessingTasks c st2;
       if status \<noteq> NO_ERROR then Some (UNKNOWN_ERROR, st3)
       else do {
              cfg \<leftarrow> curPipe st3;
              let st4 = emit [PollerInit (nodes cfg)] st3;
              if pollerInit c \<noteq> NO_ERROR then Some (UNKNOWN_ERROR, st4) else Some (OK, st4)
            }
     }"

section \<open>The controller as a transition system\<close>

text \<open>
  The entry points other threads call, and the message thread: its start, and one
  iteration of its loop (which blocks while the queue is empty and has ended once
  \<open>mThreadRunning\<close> is false). Each step carries the collaborators' answers during it.
\<close>

datatype op =
  ConfigStreams cfg_env "camera3_stream_t list"
| CompleteRequest "Camera3Request option"
| NotifyPollEvent "PollEventMessage option"
| Flush
| AttachListenerOp nat
| ThreadStart
| ThreadIteration collab

fun exec :: "op \<Rightarrow> ImguUnit \<Rightarrow> ImguUnit option" where
  "exec (ConfigStreams c activeStreams) st = map_option snd (configStreams c activeStreams st)"
| "exec (CompleteRequest request) st = Some (snd (completeRequest request st))"
| "exec (NotifyPollEvent pollMsg) st = Some (snd (snd (notifyPollEvent pollMsg st)))"
| "exec Flush st = Some (flush st)"
| "exec (AttachListenerOp aListener) st = Some (snd (attachListener aListener st))"
| "exec ThreadStart st = Some (st\<lparr>mThreadRunning := True\<rparr>)"
| "exec (ThreadIteration e) st =
     (if \<not> mThreadRunning st then Some st
      else case mMessageQueue st of
             [] \<Rightarrow> Some st
           | msg # queue \<Rightarrow> map_option snd (handleMessage e msg (st\<lparr>mMessageQueue := queue\<rparr>)))"

fun execs :: "op list \<Rightarrow> ImguUnit \<Rightarrow> ImguUnit option" where
  "execs [] st = Some st"
| "execs (x # xs) st = (case exec x st of None \<Rightarrow> None | Some st1 \<Rightarrow> execs xs st1)"

section \<open>The listener rule in the words of the specification\<close>

text \<open>
  The absolute difference of two width/height ratios, the tie (the two differences within
  \<open>1e-6\<close> of each other), and "the preview stream has the closer ratio", all in the
  arithmetic of the source.
\<close>

definition ratioDiff :: "camera3_stream_t \<Rightarrow> camera3_stream_t \<Rightarrow> f32" where
  "ratioDiff s t = f32_fabs (f32_sub (streamSizeRatio s) (streamSizeRatio t))"

definition ratioTie :: "camera3_stream_t list \<Rightarrow> nat \<Rightarrow> nat \<Rightarrow> nat \<Rightarrow> bool" where
  "ratioTie xs v p i =
     f32_le (f32_fabs (f32_sub (ratioDiff (xs ! i) (xs ! p)) (ratioDiff (xs ! i) (xs ! v))))
            (round_f32 (1 / 1000000))"

definition previewCloser :: "camera3_stream_t list \<Rightarrow> nat \<Rightarrow> nat \<Rightarrow> nat \<Rightarrow> bool" where
  "previewCloser xs v p i = f32_lt (ratioDiff (xs ! i) (xs ! p)) (ratioDiff (xs ! i) (xs ! v))"

text \<open>
  The rule as the specification words it: the node of the closer ratio; on a tie, video for
  a stream as large as the video stream, preview for one as large as the preview stream,
  otherwise the node of the larger stream.
\<close>

definition spec_listenerNode :: "camera3_stream_t list \<Rightarrow> nat \<Rightarrow> nat \<Rightarrow> nat \<Rightarrow> NodeTypes" where
  "spec_listenerNode xs v p i =
     (if ratioTie xs v p i
      then (if streamSizeEQ (xs ! i) (xs ! v) then IMGU_NODE_VIDEO
            else if streamSizeEQ (xs ! i) (xs ! p) then IMGU_NODE_VF_PREVIEW
            else if streamSizeGT (xs ! p) (xs ! v) then IMGU_NODE_VF_PREVIEW
            else IMGU_NODE_VIDEO)
      else if previewCloser xs v p i then IMGU_NODE_VF_PREVIEW
      else IMGU_NODE_VIDEO)"

section \<open>Example inputs\<close>

definition mkStream :: "nat \<Rightarrow> 32 word \<Rightarrow> 32 word \<Rightarrow> pixel_format \<Rightarrow> camera3_stream_t" where
  "mkStream a w h f =
     \<lparr>addr = a, stream_type = CAMERA3_STREAM_OUTPUT, width = w, height = h, format = f\<rparr>"

definition mkMapping :: "camera3_stream_t list \<Rightarrow> camera3_stream_t list \<Rightarrow> Mapping" where
  "mkMapping blobs yuvs =
     \<lparr>mActiveStreams = \<lparr>blobStreams = blobs, rawStreams = [], yuvStreams = yuvs,
                          inputStream = None\<rparr>,
      mStreamNodeMapping = Map.empty, mStreamListenerMapping = []\<rparr>"

definition ex_blob :: camera3_stream_t where
  "ex_blob = mkStream 1 4000 3000 HAL_PIXEL_FORMAT_BLOB"

definition ex_blob2 :: camera3_stream_t where
  "ex_blob2 = mkStream 6 1600 1200 HAL_PIXEL_FORMAT_BLOB"

definition ex_1080p :: camera3_stream_t where
  "ex_1080p = mkStream 2 1920 1080 HAL_PIXEL_FORMAT_IMPLEMENTATION_DEFINED"

definition ex_1080p' :: camera3_stream_t where
  "ex_1080p' = mkStream 3 1920 1080 HAL_PIXEL_FORMAT_YCbCr_420_888"

definition ex_vga :: camera3_stream_t where
  "ex_vga = mkStream 4 640 480 HAL_PIXEL_FORMAT_YCbCr_420_888"

definition ex_wide :: camera3_stream_t where
  "ex_wide = mkStream 5 6000 2000 HAL_PIXEL_FORMAT_YCbCr_420_888"

definition ex_one :: Mapping where
  "ex_one = mkMapping [] [ex_1080p]"

definition ex_two :: Mapping where
  "ex_two = mkMapping [] [ex_vga, ex_1080p]"

definition ex_three :: Mapping where
  "ex_three = mkMapping [ex_blob] [ex_1080p, ex_wide]"

definition ex_four :: Mapping where
  "ex_four = mkMapping [ex_blob] [ex_1080p, ex_1080p', ex_vga]"

text \<open>
  A second configuration with two blob streams, entered with the maps the one-stream
  configuration \<open>ex_one\<close> left behind; and a configuration without streams.
\<close>

definition ex_two_blobs :: Mapping where
  "ex_two_blobs =
     (snd (mapStreamWithDeviceNode ex_one))
       \<lparr>mActiveStreams := \<lparr>blobStreams = [ex_blob, ex_blob2], rawStreams = [],
                             yuvStreams = [], inputStream = None\<rparr>\<rparr>"

definition ex_no_streams :: Mapping where
  "ex_no_streams =
     (snd (mapStreamWithDeviceNode ex_one))
       \<lparr>mActiveStreams := \<lparr>blobStreams = [], rawStreams = [],
                             yuvStreams = [], inputStream = None\<rparr>\<rparr>"

section \<open>Observations on a run of the controller\<close>

text \<open>
  The request ids of the completion events delivered to listeners, in the order of
  delivery; the ids of the requests still held by the controller, from the oldest
  in-flight request to the request messages waiting in the queue; and the ids of the
  requests a sequence of steps submits.
\<close>

fun completionIds :: "effect list \<Rightarrow> int list" where
  "completionIds [] = []"
| "completionIds (NotifyCaptureEvent listener reqId # es) = reqId # completionIds es"
| "completionIds (e # es) = completionIds es"

fun pendingIds :: "Camera3Request option list \<Rightarrow> int list" where
  "pendingIds [] = []"
| "pendingIds (Some request # ms) = getId request # pendingIds ms"
| "pendingIds (None # ms) = pendingIds ms"

fun queuedIds :: "DeviceMessage list \<Rightarrow> int list" where
  "queuedIds [] = []"
| "queuedIds (MESSAGE_COMPLETE_REQ (Some request) # ms) = getId request # queuedIds ms"
| "queuedIds (m # ms) = queuedIds ms"

definition orderChain :: "ImguUnit \<Rightarrow> int list" where
  "orderChain st =
     completionIds (calls st) @ map getId (mMessagesUnderwork st)
       @ pendingIds (mMessagesPending st) @ queuedIds (mMessageQueue st)"


fun isConfigStreams :: "op \<Rightarrow> bool" where
  "isConfigStreams (ConfigStreams c activeStreams) = True"
| "isConfigStreams _ = False"

text \<open>
  What the handlers of the message thread leave alone or only extend: the completion
  events so far, the ids of the admitted and pending requests, the ids of the queued
  request messages, and the members no handler writes.
\<close>

definition summary ::
  "ImguUnit \<Rightarrow> int list \<times> int list \<times> int list \<times> ImguState \<times> bool \<times> pipe_index option" where
  "summary st =
     (completionIds (calls st),
      map getId (mMessagesUnderwork st) @ pendingIds (mMessagesPending st),
      queuedIds (mMessageQueue st),
      mState st, mFlushing st, mCurPipeConfig st)"

text \<open>What a configuration pass leaves alone, apart from resetting \<open>mFlushing\<close>.\<close>

definition held ::
  "ImguUnit \<Rightarrow> int list \<times> Camera3Request list \<times> Camera3Request option list
               \<times> DeviceMessage list \<times> ImguState \<times> bool" where
  "held st =
     (completionIds (calls st), mMessagesUnderwork st, mMessagesPending st, mMessageQueue st,
      mState st, mFlushing st)"

section \<open>Example runs\<close>

text \<open>
  One opened video node; every collaborator answers \<open>OK\<close> and every Worker needs
  polling.
\<close>

definition ex_cfg :: cfg_env where
  "ex_cfg =
     \<lparr>graphConfigNull = False, configureCIO2 = OK, configureImguCommon = OK,
      hasImguStill = False, configurePipeStill = OK,
      hasImguVideo = True, configurePipeVideo = OK,
      getConfiguredNodesPerName = [(IMGU_NODE_VIDEO, Some 10)],
      pipelineDepth = 4, configure = (\<lambda>w. OK), pollerInit = OK\<rparr>"

definition ex_collab :: collab where
  "ex_collab =
     \<lparr>settings = (\<lambda>t r. OK), startWorker = (\<lambda>w. OK), stopWorker = (\<lambda>w. OK),
      prepareRun = (\<lambda>w r. OK), asyncPollDone = (\<lambda>w r. OK), run = (\<lambda>w r. OK),
      postRun = (\<lambda>w r. OK), needPolling = (\<lambda>w. True), pollRequest = OK\<rparr>"

definition ex_request :: "int \<Rightarrow> Camera3Request" where
  "ex_request i = \<lparr>getId = i, getInputBuffers = 0\<rparr>"

definition ex_poll :: "32 word \<Rightarrow> PollEventMessage" where
  "ex_poll i =
     \<lparr>pm_id = POLL_EVENT_ID_EVENT, pm_reqId = i, pm_activeDevices = Some [Some 10],
      pm_polledDevices = [Some 10], pm_inactiveDevices = []\<rparr>"

text \<open>
  Requests 5 and 6 are submitted and admitted; the Poller reports 6, then 5; the message
  thread handles both reports.
\<close>

definition ex_setup :: "op list" where
  "ex_setup =
     [ThreadStart, AttachListenerOp 0, ConfigStreams ex_cfg [ex_1080p'],
      CompleteRequest (Some (ex_request 5)), CompleteRequest (Some (ex_request 6)),
      ThreadIteration ex_collab, ThreadIteration ex_collab]"


section \<open>The calls made for one drained request\<close>


text \<open>The state the example setup leaves: requests 5 and 6 in flight, polled, not completed.\<close>

definition ex_state :: ImguUnit where
  "ex_state = (case execs ex_setup ImguUnit_new of Some st \<Rightarrow> st | None \<Rightarrow> ImguUnit_new)"




text \<open>Collaborators as in \<open>ex_collab\<close>, except that no Worker stops.\<close>

definition ex_stop_fails :: collab where
  "ex_stop_fails = ex_collab\<lparr>stopWorker := (\<lambda>w. UNKNOWN_ERROR)\<rparr>"

section \<open>Pipes of output Workers, and examples with an input stream\<close>

fun isInputFrameWorker :: "worker \<Rightarrow> bool" where
  "isInputFrameWorker (InputFrameWorker s outs depth) = True"
| "isInputFrameWorker _ = False"

text \<open>
  A PipeConfig as the Worker loop builds it: every device Worker is pollable, the node
  list lists their nodes, and none is an \<open>InputFrameWorker\<close>.
\<close>

definition outputOnly :: "PipeConfiguration \<Rightarrow> bool" where
  "outputOnly cfg \<longleftrightarrow>
     deviceWorkers cfg = pollableWorkers cfg \<and>
     nodes cfg = map getNode (pollableWorkers cfg) \<and>
     (\<forall>w\<in>set (pollableWorkers cfg). \<not> isInputFrameWorker w)"

definition ex_input :: camera3_stream_t where
  "ex_input =
     \<lparr>addr = 7, stream_type = CAMERA3_STREAM_INPUT, width = 1920, height = 1080,
      format = HAL_PIXEL_FORMAT_YCbCr_420_888\<rparr>"

text \<open>
  The controller configured with an input stream and one yuv stream, before its first
  request; a reprocessing request; and the configured controller of \<open>ex_setup\<close> with a
  listening task registered, whose \<open>settings\<close> fails.
\<close>

definition ex_reprocess :: ImguUnit where
  "ex_reprocess =
     (case execs [ThreadStart, AttachListenerOp 0, ConfigStreams ex_cfg [ex_input, ex_1080p']]
             ImguUnit_new of
        Some st \<Rightarrow> st | None \<Rightarrow> ImguUnit_new)"

definition ex_reprocess_request :: Camera3Request where
  "ex_reprocess_request = \<lparr>getId = 5, getInputBuffers = 1\<rparr>"



definition ex_video_worker :: worker where
  "ex_video_worker = OutputFrameWorker (Some 10) (Some ex_1080p') IMGU_NODE_VIDEO 4"

definition ex_started :: ImguUnit where
  "ex_started = ImguUnit_new\<lparr>mThreadRunning := True, mListeners := [0]\<rparr>"

definition ex_input_worker :: worker where
  "ex_input_worker = InputFrameWorker ex_input [ex_1080p'] 4"





section \<open>Properties of the stream mapper\<close>

lemma status_neq: "BAD_VALUE \<noteq> OK" "UNKNOWN_ERROR \<noteq> OK"
  by (simp_all add: BAD_VALUE_def UNKNOWN_ERROR_def OK_def)

lemma availableStreams_eq:
  "length bs \<le> 1 \<Longrightarrow> (if length bs \<noteq> 0 then bs ! 0 # ys else ys) = bs @ ys"
  by (cases bs) auto

lemma mapStream_unfold:
  assumes "length (blobStreams (mActiveStreams m)) \<le> 1"
  shows "mapStreamWithDeviceNode m =
     (case selectNodes (length (blobStreams (mActiveStreams m)))
             (length (yuvStreams (mActiveStreams m)))
             (blobStreams (mActiveStreams m) @ yuvStreams (mActiveStreams m)) of
        Inl err \<Rightarrow> (err, m\<lparr>mStreamNodeMapping := Map.empty, mStreamListenerMapping := []\<rparr>)
      | Inr (videoIdx, previewIdx, listeners) \<Rightarrow>
          (OK, setListeners (blobStreams (mActiveStreams m) @ yuvStreams (mActiveStreams m)) listeners
                 (setVideo ((blobStreams (mActiveStreams m) @ yuvStreams (mActiveStreams m)) ! videoIdx)
                    (case previewIdx of
                       None \<Rightarrow> m\<lparr>mStreamNodeMapping := Map.empty, mStreamListenerMapping := []\<rparr>
                     | Some p \<Rightarrow>
                         setPreview ((blobStreams (mActiveStreams m) @ yuvStreams (mActiveStreams m)) ! p)
                           (m\<lparr>mStreamNodeMapping := Map.empty, mStreamListenerMapping := []\<rparr>)))))"
proof -
  have a: "(if length (blobStreams (mActiveStreams m)) \<noteq> 0
            then blobStreams (mActiveStreams m) ! 0 # yuvStreams (mActiveStreams m)
            else yuvStreams (mActiveStreams m)) =
           blobStreams (mActiveStreams m) @ yuvStreams (mActiveStreams m)"
    using assms by (rule availableStreams_eq)
  have b: "\<not> 1 < length (blobStreams (mActiveStreams m))"
    using assms by simp
  show ?thesis
    unfolding mapStreamWithDeviceNode_def Let_def a using b
    by (simp split: sum.splits prod.splits)
qed

lemma map_single:
  assumes "length (blobStreams (mActiveStreams m)) \<le> 1"
      and "blobStreams (mActiveStreams m) @ yuvStreams (mActiveStreams m) = [s]"
  shows "mapStreamWithDeviceNode m =
           (OK, m\<lparr>mStreamNodeMapping := [IMGU_NODE_VIDEO \<mapsto> Some s],
                   mStreamListenerMapping := []\<rparr>)"
proof -
  have n: "length (blobStreams (mActiveStreams m)) + length (yuvStreams (mActiveStreams m)) = 1"
    using assms(2) by (metis length_append length_Cons list.size(3) One_nat_def)
  have sel: "selectNodes (length (blobStreams (mActiveStreams m)))
               (length (yuvStreams (mActiveStreams m))) [s] = Inr (0, None, [])"
    using n by (simp add: selectNodes_def)
  show ?thesis
    using assms sel
    by (simp add: mapStream_unfold setVideo_def setListeners_def)
qed

lemma map_two:
  assumes "length (blobStreams (mActiveStreams m)) \<le> 1"
      and "blobStreams (mActiveStreams m) @ yuvStreams (mActiveStreams m) = [s0, s1]"
  shows "mapStreamWithDeviceNode m =
           (OK, m\<lparr>mStreamNodeMapping :=
                     (if streamSizeGE s0 s1
                      then [IMGU_NODE_VF_PREVIEW \<mapsto> Some s1, IMGU_NODE_PV_PREVIEW \<mapsto> Some s1,
                            IMGU_NODE_VIDEO \<mapsto> Some s0]
                      else [IMGU_NODE_VF_PREVIEW \<mapsto> Some s0, IMGU_NODE_PV_PREVIEW \<mapsto> Some s0,
                            IMGU_NODE_VIDEO \<mapsto> Some s1]),
                   mStreamListenerMapping := []\<rparr>)"
proof -
  have n: "length (blobStreams (mActiveStreams m)) + length (yuvStreams (mActiveStreams m)) = 2"
    using assms(2) by (metis length_append length_Cons list.size(3) One_nat_def Suc_1)
  have sel: "selectNodes (length (blobStreams (mActiveStreams m)))
               (length (yuvStreams (mActiveStreams m))) [s0, s1] =
             Inr (if streamSizeGE s0 s1 then 0 else 1,
                  Some (if streamSizeGE s0 s1 then 1 else 0), [])"
    using n by (simp add: selectNodes_def)
  show ?thesis
    using assms sel
    by (simp add: mapStream_unfold setVideo_def setPreview_def setListeners_def fun_upd_twist)
qed

lemma map_too_many_blobs:
  "length (blobStreams (mActiveStreams m)) > 1 \<Longrightarrow> mapStreamWithDeviceNode m = (BAD_VALUE, m)"
  by (simp add: mapStreamWithDeviceNode_def)

lemma selectNodes_unsupported:
  assumes "bn + yn \<noteq> 1" "bn + yn \<noteq> 2" "\<not> (yn \<ge> 2 \<and> bn = 1)"
  shows "selectNodes bn yn xs = Inl UNKNOWN_ERROR"
  unfolding selectNodes_def Let_def using assms by auto

lemma map_unsupported:
  assumes "length (blobStreams (mActiveStreams m)) \<le> 1"
      and "length (blobStreams (mActiveStreams m)) + length (yuvStreams (mActiveStreams m)) \<noteq> 1"
      and "length (blobStreams (mActiveStreams m)) + length (yuvStreams (mActiveStreams m)) \<noteq> 2"
      and "\<not> (length (yuvStreams (mActiveStreams m)) \<ge> 2 \<and> length (blobStreams (mActiveStreams m)) = 1)"
  shows "mapStreamWithDeviceNode m =
           (UNKNOWN_ERROR, m\<lparr>mStreamNodeMapping := Map.empty, mStreamListenerMapping := []\<rparr>)"
  by (simp only: mapStream_unfold[OF assms(1)] selectNodes_unsupported[OF assms(2,3,4)] sum.case)

lemma streamSizeGE_area:
  assumes "unat (width s1) * unat (height s1) < 2 ^ 32" "unat (width s2) * unat (height s2) < 2 ^ 32"
  shows "streamSizeGE s1 s2 \<longleftrightarrow> unat (width s1) * unat (height s1) \<ge> unat (width s2) * unat (height s2)"
  using assms unfolding streamSizeGE_def
  by (simp add: word_le_nat_alt unat_word_ariths(2) take_bit_nat_eq_self)

lemma GE_refl: "streamSizeGE s s" by (simp add: streamSizeGE_def)
lemma GT_imp_GE: "streamSizeGT a b \<Longrightarrow> streamSizeGE a b" by (simp add: streamSizeGT_def streamSizeGE_def)
lemma GE_trans: "streamSizeGE a b \<Longrightarrow> streamSizeGE b c \<Longrightarrow> streamSizeGE a c"
  by (simp add: streamSizeGE_def)
lemma not_GT_GE: "\<not> streamSizeGT a b \<Longrightarrow> streamSizeGE b a"
  by (simp add: streamSizeGT_def streamSizeGE_def)
lemma EQ_imp_GE: "streamSizeEQ a b \<Longrightarrow> streamSizeGE b a"
  by (simp add: streamSizeEQ_def streamSizeGE_def)

lemma videoLoop_inv:
  fixes xs :: "camera3_stream_t list"
  defines "F \<equiv> \<lambda>k. fold (\<lambda>i videoIdx. if streamSizeGT (xs ! i) (xs ! videoIdx) then i else videoIdx) [0..<k] 0"
  shows "F k \<le> k - 1 \<and> (\<forall>i<k. streamSizeGE (xs ! F k) (xs ! i))"
proof (induction k)
  case 0
  then show ?case by (simp add: F_def)
next
  case (Suc k)
  have step: "F (Suc k) = (if streamSizeGT (xs ! k) (xs ! F k) then k else F k)"
    by (simp add: F_def)
  show ?case
  proof (cases "streamSizeGT (xs ! k) (xs ! F k)")
    case True
    have "\<forall>i<Suc k. streamSizeGE (xs ! k) (xs ! i)"
      using Suc True by (auto simp: less_Suc_eq GE_refl intro: GE_trans GT_imp_GE)
    with True step show ?thesis by simp
  next
    case False
    have "\<forall>i<Suc k. streamSizeGE (xs ! F k) (xs ! i)"
      using Suc False by (auto simp: less_Suc_eq dest: not_GT_GE)
    with False step Suc show ?thesis by auto
  qed
qed

lemma findVideoIdx_max: "i < length xs \<Longrightarrow> streamSizeGE (xs ! findVideoIdx xs) (xs ! i)"
  using videoLoop_inv[of xs "length xs"] by (simp add: findVideoIdx_def)

lemma findVideoIdx_less: "xs \<noteq> [] \<Longrightarrow> findVideoIdx xs < length xs"
  using videoLoop_inv[of xs "length xs"] by (cases xs) (auto simp add: findVideoIdx_def)

lemma previewLoop_inv:
  fixes xs :: "camera3_stream_t list" and v :: nat
  defines "P \<equiv> \<lambda>k. fold (previewStep xs v) [0..<k] None"
  shows "(P k = None \<longrightarrow> (\<forall>i<k. i = v)) \<and>
         (\<forall>p. P k = Some p \<longrightarrow> p < k \<and> p \<noteq> v \<and>
              (\<forall>i<k. i \<noteq> v \<longrightarrow> streamSizeEQ (xs ! i) (xs ! v) \<or> streamSizeGE (xs ! p) (xs ! i)))"
proof (induction k)
  case 0
  then show ?case by (simp add: P_def)
next
  case (Suc k)
  have step: "P (Suc k) = previewStep xs v k (P k)"
    by (simp add: P_def)
  show ?case
  proof (cases "k = v")
    case True
    have "P (Suc k) = P k" unfolding step using True by (simp add: previewStep_def)
    with True Suc show ?thesis by (auto simp: less_Suc_eq)
  next
    case kv: False
    show ?thesis
    proof (cases "P k")
      case None
      then have "P (Suc k) = Some k" using kv by (simp add: step previewStep_def)
      moreover have "\<forall>i<k. i = v" using None Suc by simp
      ultimately show ?thesis using kv by (auto simp: less_Suc_eq GE_refl)
    next
      case (Some q)
      then have q: "q < k" "q \<noteq> v"
        and qi: "\<forall>i<k. i \<noteq> v \<longrightarrow> streamSizeEQ (xs ! i) (xs ! v) \<or> streamSizeGE (xs ! q) (xs ! i)"
        using Suc by auto
      show ?thesis
      proof (cases "streamSizeEQ (xs ! k) (xs ! v)")
        case True
        then have "P (Suc k) = Some q" using kv Some by (simp add: step previewStep_def)
        then show ?thesis using q qi True by (auto simp: less_Suc_eq)
      next
        case neq: False
        show ?thesis
        proof (cases "streamSizeGT (xs ! k) (xs ! q)")
          case True
          then have "P (Suc k) = Some k" using kv Some neq by (simp add: step previewStep_def)
          moreover have "\<forall>i<Suc k. i \<noteq> v \<longrightarrow> streamSizeEQ (xs ! i) (xs ! v) \<or> streamSizeGE (xs ! k) (xs ! i)"
            using qi True by (auto simp: less_Suc_eq GE_refl intro: GE_trans GT_imp_GE)
          ultimately show ?thesis using kv by auto
        next
          case False
          then have "P (Suc k) = Some q" using kv Some neq by (simp add: step previewStep_def)
          moreover have "\<forall>i<Suc k. i \<noteq> v \<longrightarrow> streamSizeEQ (xs ! i) (xs ! v) \<or> streamSizeGE (xs ! q) (xs ! i)"
            using qi False by (auto simp: less_Suc_eq dest: not_GT_GE)
          ultimately show ?thesis using q by auto
        qed
      qed
    qed
  qed
qed

lemma findPreviewIdx_props:
  assumes "2 \<le> length xs"
  shows "findPreviewIdx xs v < length xs \<and> findPreviewIdx xs v \<noteq> v \<and>
         (\<forall>i<length xs. i \<noteq> v \<longrightarrow>
            streamSizeEQ (xs ! i) (xs ! v) \<or> streamSizeGE (xs ! findPreviewIdx xs v) (xs ! i))"
proof -
  let ?P = "fold (previewStep xs v) [0..<length xs] None"
  have "\<exists>i<length xs. i \<noteq> v"
  proof (cases "v = 0")
    case True
    then show ?thesis using assms by (intro exI[of _ 1]) simp
  next
    case False
    moreover have "0 < length xs" using assms by linarith
    ultimately show ?thesis by blast
  qed
  then have "?P \<noteq> None"
    using previewLoop_inv[of xs v "length xs"] by blast
  then obtain p where p: "?P = Some p" by auto
  then have "findPreviewIdx xs v = p" by (simp add: findPreviewIdx_def)
  then show ?thesis
    using previewLoop_inv[of xs v "length xs"] p by simp
qed

lemma listenerLookup_assign:
  "listenerLookup (listenerAssign m k v) k' =
     (if addr k' = addr k then Some v else listenerLookup m k')"
  by (induction m k v rule: listenerAssign.induct) auto

lemma listenerAssign_keys:
  "(\<lambda>a. addr (fst a)) ` set (listenerAssign m k v) =
     insert (addr k) ((\<lambda>a. addr (fst a)) ` set m)"
  by (induction m k v rule: listenerAssign.induct) auto

lemma listenerAssign_sorted:
  "sorted_wrt (<) (map (\<lambda>a. addr (fst a)) m) \<Longrightarrow> sorted_wrt (<) (map (\<lambda>a. addr (fst a)) (listenerAssign m k v))"
proof (induction m k v rule: listenerAssign.induct)
  case (1 k v)
  then show ?case by simp
next
  case (2 k' v' m k v)
  show ?case
  proof (cases "addr k = addr k'")
    case True
    then show ?thesis using 2(2) by simp
  next
    case ne: False
    show ?thesis
    proof (cases "addr k < addr k'")
      case True
      then show ?thesis using 2(2) ne by auto
    next
      case False
      then have "sorted_wrt (<) (map (\<lambda>a. addr (fst a)) (listenerAssign m k v))"
        using 2 ne by simp
      moreover have "\<forall>x \<in> set (listenerAssign m k v). addr k' < addr (fst x)"
      proof
        fix x assume "x \<in> set (listenerAssign m k v)"
        then have "addr (fst x) \<in> (\<lambda>a. addr (fst a)) ` set (listenerAssign m k v)"
          by (rule imageI)
        then have "addr (fst x) = addr k \<or> addr (fst x) \<in> (\<lambda>a. addr (fst a)) ` set m"
          by (simp add: listenerAssign_keys)
        then show "addr k' < addr (fst x)"
          using 2(2) ne False by auto
      qed
      ultimately show ?thesis using ne False by simp
    qed
  qed
qed

lemma setListeners_fields:
  "mStreamListenerMapping (setListeners xs ls m) =
     fold (\<lambda>it lm. listenerAssign lm (xs ! fst it) (snd it)) ls (mStreamListenerMapping m)"
  "mStreamNodeMapping (setListeners xs ls m) = mStreamNodeMapping m"
  unfolding setListeners_def by (induction ls arbitrary: m) simp_all

lemma fold_assign_sorted:
  "sorted_wrt (<) (map (\<lambda>a. addr (fst a)) lm) \<Longrightarrow>
   sorted_wrt (<) (map (\<lambda>a. addr (fst a)) (fold (\<lambda>it lm. listenerAssign lm (xs ! fst it) (snd it)) ls lm))"
  by (induction ls arbitrary: lm) (simp_all add: listenerAssign_sorted)

lemma fold_assign_lookup:
  assumes "distinct (map addr xs)" "j < length xs" "\<forall>i\<in>set is. i < length xs"
  shows "listenerLookup (fold (\<lambda>it lm. listenerAssign lm (xs ! fst it) (snd it))
                              (map (\<lambda>i. (i, f i)) is) lm) (xs ! j) =
         (if j \<in> set is then Some (f j) else listenerLookup lm (xs ! j))"
  using assms(3)
proof (induction "is" arbitrary: lm)
  case Nil
  then show ?case by simp
next
  case (Cons a "is")
  have a: "a < length xs" using Cons.prems by simp
  have eq: "addr (xs ! j) = addr (xs ! a) \<longleftrightarrow> j = a"
    using assms(1,2) a by (metis length_map nth_eq_iff_index_eq nth_map)
  show ?case
    using Cons eq by (simp add: listenerLookup_assign)
qed

lemma listenerNode_amended:
  assumes "streamSizeGE (xs ! v) (xs ! i)"
  shows "listenerNode xs v p i =
           (if previewCloser xs v p i \<and> \<not> ratioTie xs v p i \<and> \<not> streamSizeGE (xs ! p) (xs ! i)
            then IMGU_NODE_VIDEO else spec_listenerNode xs v p i)"
  using assms
  unfolding listenerNode_def spec_listenerNode_def previewCloser_def ratioTie_def ratioDiff_def Let_def
  by simp

lemma selectNodes_three:
  assumes "2 \<le> yn"
  shows "selectNodes 1 yn xs =
           Inr (findVideoIdx xs, Some (findPreviewIdx xs (findVideoIdx xs)),
                findListeners xs (findVideoIdx xs) (findPreviewIdx xs (findVideoIdx xs)))"
  using assms unfolding selectNodes_def Let_def by simp


text \<open>
  Claim C8. With a single stream, that stream is mapped to the video node and nothing
  else is mapped: no preview node, no listener. With two streams, the one whose
  \<open>width * height\<close> (the 32-bit product the macros compute; the area, by
  \<open>streamSizeGE_area\<close>, whenever it fits 32 bits) is larger is mapped to the video node and
  the other to the preview nodes; when the two products are equal the first stream is the
  video stream.
\<close>

theorem one_and_two_stream_mapping:
  assumes "length (blobStreams (mActiveStreams m)) \<le> 1"
  shows "(blobStreams (mActiveStreams m) @ yuvStreams (mActiveStreams m) = [s] \<longrightarrow>
            mapStreamWithDeviceNode m =
              (OK, m\<lparr>mStreamNodeMapping := [IMGU_NODE_VIDEO \<mapsto> Some s],
                      mStreamListenerMapping := []\<rparr>)) \<and>
         (blobStreams (mActiveStreams m) @ yuvStreams (mActiveStreams m) = [s0, s1] \<longrightarrow>
            mapStreamWithDeviceNode m =
              (OK, m\<lparr>mStreamNodeMapping :=
                        (if streamSizeGE s0 s1
                         then [IMGU_NODE_VF_PREVIEW \<mapsto> Some s1,
                               IMGU_NODE_PV_PREVIEW \<mapsto> Some s1, IMGU_NODE_VIDEO \<mapsto> Some s0]
                         else [IMGU_NODE_VF_PREVIEW \<mapsto> Some s0,
                               IMGU_NODE_PV_PREVIEW \<mapsto> Some s0, IMGU_NODE_VIDEO \<mapsto> Some s1]),
                      mStreamListenerMapping := []\<rparr>))"
  using map_single[OF assms] map_two[OF assms] by blast

theorem one_and_two_stream_mapping_witness:
  "mapStreamWithDeviceNode ex_one =
     (OK, ex_one\<lparr>mStreamNodeMapping := [IMGU_NODE_VIDEO \<mapsto> Some ex_1080p],
                    mStreamListenerMapping := []\<rparr>) \<and>
   mapStreamWithDeviceNode ex_two =
     (OK, ex_two\<lparr>mStreamNodeMapping :=
                      [IMGU_NODE_VF_PREVIEW \<mapsto> Some ex_vga, IMGU_NODE_PV_PREVIEW \<mapsto> Some ex_vga,
                       IMGU_NODE_VIDEO \<mapsto> Some ex_1080p],
                    mStreamListenerMapping := []\<rparr>)"
proof -
  have h1: "length (blobStreams (mActiveStreams ex_one)) \<le> 1"
    by (simp add: ex_one_def mkMapping_def)
  have a1: "blobStreams (mActiveStreams ex_one) @ yuvStreams (mActiveStreams ex_one) = [ex_1080p]"
    by (simp add: ex_one_def mkMapping_def)
  have h2: "length (blobStreams (mActiveStreams ex_two)) \<le> 1"
    by (simp add: ex_two_def mkMapping_def)
  have a2: "blobStreams (mActiveStreams ex_two) @ yuvStreams (mActiveStreams ex_two) =
            [ex_vga, ex_1080p]"
    by (simp add: ex_two_def mkMapping_def)
  have lt: "\<not> streamSizeGE ex_vga ex_1080p"
    by code_simp
  show ?thesis
    using one_and_two_stream_mapping[OF h1, of ex_1080p ex_vga ex_1080p]
          one_and_two_stream_mapping[OF h2, of ex_1080p ex_vga ex_1080p] a1 a2 lt
    by simp
qed

text \<open>
  Claim C7, as amended. With more than one blob stream the mapper returns
  \<open>BAD_VALUE\<close> before it touches the two maps, which keep what the previous
  configuration left in them. With at most one blob stream and a combination other than
  one stream, two streams, or one blob with at least two yuv streams, it clears both
  maps and returns \<open>UNKNOWN_ERROR\<close>. Both statuses differ from \<open>OK\<close>; the mapper
  is a function of the stream lists and the two maps alone.
\<close>

theorem unsupported_stream_sets:
  "(1 < length (blobStreams (mActiveStreams m)) \<longrightarrow>
      mapStreamWithDeviceNode m = (BAD_VALUE, m)) \<and>
   (length (blobStreams (mActiveStreams m)) \<le> 1 \<and>
    length (blobStreams (mActiveStreams m)) + length (yuvStreams (mActiveStreams m)) \<noteq> 1 \<and>
    length (blobStreams (mActiveStreams m)) + length (yuvStreams (mActiveStreams m)) \<noteq> 2 \<and>
    \<not> (2 \<le> length (yuvStreams (mActiveStreams m)) \<and>
       length (blobStreams (mActiveStreams m)) = 1) \<longrightarrow>
      mapStreamWithDeviceNode m =
        (UNKNOWN_ERROR, m\<lparr>mStreamNodeMapping := Map.empty, mStreamListenerMapping := []\<rparr>)) \<and>
   BAD_VALUE \<noteq> OK \<and> UNKNOWN_ERROR \<noteq> OK"
  using map_too_many_blobs[of m] map_unsupported[of m] status_neq by blast

theorem unsupported_stream_sets_witness:
  "mapStreamWithDeviceNode ex_two_blobs = (BAD_VALUE, ex_two_blobs) \<and>
   mapStreamWithDeviceNode ex_no_streams =
     (UNKNOWN_ERROR,
      ex_no_streams\<lparr>mStreamNodeMapping := Map.empty, mStreamListenerMapping := []\<rparr>)"
proof -
  have b: "blobStreams (mActiveStreams ex_two_blobs) = [ex_blob, ex_blob2]"
    by (simp add: ex_two_blobs_def)
  have n: "blobStreams (mActiveStreams ex_no_streams) = []"
          "yuvStreams (mActiveStreams ex_no_streams) = []"
    by (simp_all add: ex_no_streams_def)
  show ?thesis
    using unsupported_stream_sets[of ex_two_blobs] unsupported_stream_sets[of ex_no_streams]
    by (simp add: b n)
qed

text \<open>
  The claim as stated fails: entered with the video mapping of an earlier one-stream
  configuration, a stream set with two blob streams is refused and the video mapping is
  still there.
\<close>

theorem unsupported_stream_sets_counterexample:
  "fst (mapStreamWithDeviceNode ex_two_blobs) = BAD_VALUE \<and>
   mStreamNodeMapping (snd (mapStreamWithDeviceNode ex_two_blobs)) IMGU_NODE_VIDEO
     = Some (Some ex_1080p)"
proof -
  have b: "1 < length (blobStreams (mActiveStreams ex_two_blobs))"
    by (simp add: ex_two_blobs_def)
  have one: "mapStreamWithDeviceNode ex_one =
               (OK, ex_one\<lparr>mStreamNodeMapping := [IMGU_NODE_VIDEO \<mapsto> Some ex_1080p],
                              mStreamListenerMapping := []\<rparr>)"
    by (rule map_single) (simp_all add: ex_one_def mkMapping_def)
  have v: "mStreamNodeMapping ex_two_blobs IMGU_NODE_VIDEO = Some (Some ex_1080p)"
    by (simp add: ex_two_blobs_def one)
  show ?thesis
    by (simp add: map_too_many_blobs[OF b] v)
qed

text \<open>
  Claim C4, as amended. In the mapping of one blob and at least two yuv streams (distinct
  stream objects), every stream \<open>i\<close> that is neither the video nor the preview stream
  is a listener of exactly one node: the one the rule of the specification names
  (closer width/height ratio; on a tie within \<open>1e-6\<close> the stated tie-break), except that
  a stream strictly closer in ratio to the preview stream but larger than it listens to
  the video node, and such a stream is always as large as the video stream. The video
  and preview streams are no listeners, and the listener map holds each stream address
  once.
\<close>

theorem listener_assignment:
  assumes blob: "blobStreams (mActiveStreams m) = [b]"
      and yuv: "2 \<le> length (yuvStreams (mActiveStreams m))"
      and xs: "xs = b # yuvStreams (mActiveStreams m)"
      and dist: "distinct (map addr xs)"
      and v: "v = findVideoIdx xs" and p: "p = findPreviewIdx xs v"
      and i: "i < length xs" "i \<noteq> v" "i \<noteq> p"
      and L: "L = mStreamListenerMapping (snd (mapStreamWithDeviceNode m))"
  shows "fst (mapStreamWithDeviceNode m) = OK \<and>
         listenerLookup L (xs ! i) =
           Some (if previewCloser xs v p i \<and> \<not> ratioTie xs v p i \<and>
                    \<not> streamSizeGE (xs ! p) (xs ! i)
                 then IMGU_NODE_VIDEO else spec_listenerNode xs v p i) \<and>
         (\<not> streamSizeGE (xs ! p) (xs ! i) \<longrightarrow> streamSizeEQ (xs ! i) (xs ! v)) \<and>
         listenerLookup L (xs ! v) = None \<and> listenerLookup L (xs ! p) = None \<and>
         sorted_wrt (<) (map (\<lambda>a. addr (fst a)) L)"
proof -
  have len: "2 \<le> length xs" "xs \<noteq> []" using xs yuv by auto
  have b1: "length (blobStreams (mActiveStreams m)) \<le> 1" using blob by simp
  have avail: "blobStreams (mActiveStreams m) @ yuvStreams (mActiveStreams m) = xs"
    using blob xs by simp
  have sel: "selectNodes (length (blobStreams (mActiveStreams m)))
               (length (yuvStreams (mActiveStreams m))) xs =
             Inr (v, Some p, findListeners xs v p)"
    using selectNodes_three[OF yuv, of xs] blob v p by simp
  have res: "mapStreamWithDeviceNode m =
        (OK, setListeners xs (findListeners xs v p)
               (setVideo (xs ! v)
                  (setPreview (xs ! p)
                     (m\<lparr>mStreamNodeMapping := Map.empty, mStreamListenerMapping := []\<rparr>))))"
    by (simp add: mapStream_unfold[OF b1] avail sel)
  have Leq: "L = fold (\<lambda>it lm. listenerAssign lm (xs ! fst it) (snd it))
                   (map (\<lambda>i. (i, listenerNode xs v p i))
                        (filter (\<lambda>i. i \<noteq> v \<and> i \<noteq> p) [0..<length xs])) []"
    unfolding L res by (simp add: setListeners_fields setVideo_def setPreview_def findListeners_def)
  have vlt: "v < length xs" using findVideoIdx_less[OF len(2)] v by simp
  have pp: "p < length xs" "p \<noteq> v"
    and pi: "\<forall>i<length xs. i \<noteq> v \<longrightarrow> streamSizeEQ (xs ! i) (xs ! v) \<or> streamSizeGE (xs ! p) (xs ! i)"
    using findPreviewIdx_props[OF len(1), of v] p by auto
  have idx: "\<forall>k\<in>set (filter (\<lambda>i. i \<noteq> v \<and> i \<noteq> p) [0..<length xs]). k < length xs"
    by simp
  have look: "\<And>j. j < length xs \<Longrightarrow>
        listenerLookup L (xs ! j) =
          (if j \<noteq> v \<and> j \<noteq> p then Some (listenerNode xs v p j) else None)"
    unfolding Leq using fold_assign_lookup[OF dist _ idx, of _ "listenerNode xs v p" "[]"]
    by simp
  have ge: "streamSizeGE (xs ! v) (xs ! i)"
    using findVideoIdx_max[OF i(1)] v by simp
  have c1: "fst (mapStreamWithDeviceNode m) = OK" by (simp add: res)
  have c2: "listenerLookup L (xs ! i) =
           Some (if previewCloser xs v p i \<and> \<not> ratioTie xs v p i \<and>
                    \<not> streamSizeGE (xs ! p) (xs ! i)
                 then IMGU_NODE_VIDEO else spec_listenerNode xs v p i)"
    using look[OF i(1)] i(2,3) listenerNode_amended[OF ge] by simp
  have c3: "\<not> streamSizeGE (xs ! p) (xs ! i) \<longrightarrow> streamSizeEQ (xs ! i) (xs ! v)"
    using pi i by blast
  have c4: "listenerLookup L (xs ! v) = None" using look[OF vlt] by simp
  have c5: "listenerLookup L (xs ! p) = None" using look[OF pp(1)] by simp
  have c6: "sorted_wrt (<) (map (\<lambda>a. addr (fst a)) L)"
    unfolding Leq by (rule fold_assign_sorted) simp
  from c1 c2 c3 c4 c5 c6 show ?thesis by blast
qed

theorem listener_assignment_witness:
  "fst (mapStreamWithDeviceNode ex_four) = OK \<and>
   listenerLookup (mStreamListenerMapping (snd (mapStreamWithDeviceNode ex_four))) ex_vga
     = Some IMGU_NODE_VIDEO \<and>
   listenerLookup (mStreamListenerMapping (snd (mapStreamWithDeviceNode ex_four))) ex_blob = None \<and>
   listenerLookup (mStreamListenerMapping (snd (mapStreamWithDeviceNode ex_four))) ex_1080p = None"
proof -
  let ?xs = "[ex_blob, ex_1080p, ex_1080p', ex_vga]"
  have h1: "blobStreams (mActiveStreams ex_four) = [ex_blob]" by code_simp
  have h2: "2 \<le> length (yuvStreams (mActiveStreams ex_four))" by code_simp
  have h3: "?xs = ex_blob # yuvStreams (mActiveStreams ex_four)" by code_simp
  have h4: "distinct (map addr ?xs)" by code_simp
  have h5: "0 = findVideoIdx ?xs" by code_simp
  have h6: "1 = findPreviewIdx ?xs 0" by code_simp
  have h7: "(3::nat) < length ?xs" "(3::nat) \<noteq> 0" "(3::nat) \<noteq> 1" by simp_all
  have s: "spec_listenerNode ?xs 0 1 3 = IMGU_NODE_VIDEO" by code_simp
  have g: "streamSizeGE (?xs ! 1) (?xs ! 3)" by code_simp
  have n: "?xs ! 3 = ex_vga" "?xs ! 0 = ex_blob" "?xs ! 1 = ex_1080p" by simp_all
  show ?thesis
    using listener_assignment[OF h1 h2 h3 h4 h5 h6 h7 refl] s g n by simp
qed

text \<open>
  The claim as stated fails on a blob of 4000x3000, a yuv stream of 1920x1080 and a yuv
  stream of 6000x2000: the blob is the video stream, the 1920x1080 stream the preview
  stream, the ratio 3 of the third stream is closer to 16/9 than to 4/3 and not within the
  tolerance, yet the third stream listens to the video node.
\<close>

theorem listener_assignment_counterexample:
  "findVideoIdx [ex_blob, ex_1080p, ex_wide] = 0 \<and>
   findPreviewIdx [ex_blob, ex_1080p, ex_wide] 0 = 1 \<and>
   previewCloser [ex_blob, ex_1080p, ex_wide] 0 1 2 \<and>
   \<not> ratioTie [ex_blob, ex_1080p, ex_wide] 0 1 2 \<and>
   spec_listenerNode [ex_blob, ex_1080p, ex_wide] 0 1 2 = IMGU_NODE_VF_PREVIEW \<and>
   fst (mapStreamWithDeviceNode ex_three) = OK \<and>
   listenerLookup (mStreamListenerMapping (snd (mapStreamWithDeviceNode ex_three))) ex_wide
     = Some IMGU_NODE_VIDEO"
  by code_simp

section \<open>Properties of the control loop\<close>

lemma completionIds_append [simp]: "completionIds (xs @ ys) = completionIds xs @ completionIds ys"
  by (induction xs rule: completionIds.induct) simp_all

lemma pendingIds_append [simp]: "pendingIds (xs @ ys) = pendingIds xs @ pendingIds ys"
  by (induction xs rule: pendingIds.induct) simp_all

lemma queuedIds_append [simp]: "queuedIds (xs @ ys) = queuedIds xs @ queuedIds ys"
  by (induction xs rule: queuedIds.induct) simp_all

lemma queuedIds_filter [simp]: "queuedIds (filter (\<lambda>m. \<not> isPollMessage m) q) = queuedIds q"
  by (induction q rule: queuedIds.induct) simp_all

lemma completionIds_startWorkers [simp]: "completionIds (snd (startWorkers e ws)) = []"
  by (induction ws) (auto split: prod.splits)

lemma completionIds_stopWorkers [simp]: "completionIds (snd (stopWorkers e ws)) = []"
  by (induction ws) (auto split: prod.splits)

lemma completionIds_settingsLoop [simp]: "completionIds (snd (settingsLoop e ts r s)) = []"
  by (induction e ts r s rule: settingsLoop.induct) (auto split: prod.splits)

lemma completionIds_prepareLoop [simp]: "completionIds (fst (snd (prepareLoop e r ws s))) = []"
  by (induction e r ws s rule: prepareLoop.induct) (auto split: prod.splits)

lemma completionIds_map_noNotify:
  "(\<And>x. \<forall>l i. f x \<noteq> NotifyCaptureEvent l i) \<Longrightarrow> completionIds (map f xs) = []"
proof (induction xs)
  case Nil
  then show ?case by simp
next
  case (Cons a xs)
  then show ?case by (cases "f a") auto
qed


lemma completionIds_notify [simp]:
  "completionIds (map (\<lambda>listener. NotifyCaptureEvent listener i) ls) = replicate (length ls) i"
  by (induction ls) simp_all

lemma startWorkers_noNotify: "startWorkers e ws = (s, es) \<Longrightarrow> completionIds es = []"
  using completionIds_startWorkers[of e ws] by simp

lemma stopWorkers_noNotify: "stopWorkers e ws = (res, es) \<Longrightarrow> completionIds es = []"
  using completionIds_stopWorkers[of e ws] by simp

lemma settingsLoop_noNotify: "settingsLoop e ts r s = (res, es) \<Longrightarrow> completionIds es = []"
  using completionIds_settingsLoop[of e ts r s] by simp

lemma prepareLoop_noNotify: "prepareLoop e r ws s = (s1, es, d) \<Longrightarrow> completionIds es = []"
  using completionIds_prepareLoop[of e r ws s] by simp


lemma kickstart_summary:
  "kickstart e st = Some (s, st') \<Longrightarrow> summary st' = summary st"
  by (auto simp: summary_def kickstart_def emit_def Let_def
      split: option.splits prod.splits if_splits dest: startWorkers_noNotify)

lemma processNextRequest_workers_summary:
  "processNextRequest_workers e r s st = Some (s', st') \<Longrightarrow> summary st' = summary st"
  by (auto simp: summary_def processNextRequest_workers_def setCurNodes_def curPipe_def emit_def
      send_def bindWorkers_def dummyMsg_def Let_def
      split: option.splits prod.splits if_splits Option.bind_splits
      dest: prepareLoop_noNotify)

lemma processNextRequest_summary:
  assumes "processNextRequest e st = Some (s', st')"
  shows "summary st' = summary st"
proof (cases "mMessagesPending st")
  case Nil
  then show ?thesis using assms by (simp add: processNextRequest_def)
next
  case (Cons msg rest)
  show ?thesis
  proof (cases msg)
    case None
    then show ?thesis using assms Cons by (auto simp: processNextRequest_def summary_def)
  next
    case (Some request)
    define st1 where "st1 = st\<lparr>mMessagesPending := rest,
                             mMessagesUnderwork := mMessagesUnderwork st @ [request]\<rparr>"
    obtain res es where se: "settingsLoop e (mListeningTasks st1) request NO_ERROR = (res, es)"
      by (cases "settingsLoop e (mListeningTasks st1) request NO_ERROR")
    define st2 where "st2 = emit es st1"
    have s2: "summary st2 = summary st"
      using settingsLoop_noNotify[OF se] Cons Some
      by (simp add: summary_def st2_def st1_def emit_def)
    have unfold: "processNextRequest e st =
        (case res of
           None \<Rightarrow> Some (UNKNOWN_ERROR, st2)
         | Some status \<Rightarrow>
             if mFirstRequest st2
             then do {
                    (ks, st3) \<leftarrow> kickstart e st2;
                    if ks \<noteq> OK then Some (ks, st3)
                    else processNextRequest_workers e request ks st3
                  }
             else processNextRequest_workers e request status st2)"
      using Cons Some se
      by (cases res; simp add: processNextRequest_def st1_def st2_def Let_def)
    show ?thesis
    proof (cases res)
      case None
      then show ?thesis using assms unfold s2 by simp
    next
      case (Some status)
      show ?thesis
      proof (cases "mFirstRequest st2")
        case False
        then show ?thesis
          using assms unfold Some s2 processNextRequest_workers_summary by auto
      next
        case True
        then obtain ks st3 where k: "kickstart e st2 = Some (ks, st3)"
          using assms unfold Some by (auto split: Option.bind_splits)
        have s3: "summary st3 = summary st" using kickstart_summary[OF k] s2 by simp
        show ?thesis
        proof (cases "ks = OK")
          case True
          then have "processNextRequest_workers e request ks st3 = Some (s', st')"
            using assms unfold Some \<open>mFirstRequest st2\<close> k by simp
          then show ?thesis using processNextRequest_workers_summary s3 by auto
        next
          case False
          then have "st' = st3" using assms unfold Some \<open>mFirstRequest st2\<close> k by simp
          then show ?thesis using s3 by simp
        qed
      qed
    qed
  qed
qed

lemma handleMessageCompleteReq_summary:
  assumes "handleMessageCompleteReq e (Some request) st = Some (s, st')"
  shows "summary st' =
           (completionIds (calls st),
            map getId (mMessagesUnderwork st) @ pendingIds (mMessagesPending st) @ [getId request],
            queuedIds (mMessageQueue st), mState st, mFlushing st, mCurPipeConfig st)"
proof -
  obtain st1 where 1: "setCurNodes [] (st\<lparr>mMessagesPending := mMessagesPending st @ [Some request]\<rparr>) = Some st1"
    using assms by (auto simp: handleMessageCompleteReq_def split: Option.bind_splits)
  obtain status st2 where 2: "processNextRequest e st1 = Some (status, st2)"
    using assms 1 by (auto simp: handleMessageCompleteReq_def split: Option.bind_splits)
  have s1: "summary st1 =
           (completionIds (calls st),
            map getId (mMessagesUnderwork st) @ pendingIds (mMessagesPending st) @ [getId request],
            queuedIds (mMessageQueue st), mState st, mFlushing st, mCurPipeConfig st)"
    using 1 by (auto simp: setCurNodes_def summary_def split: option.splits)
  have s2: "summary st2 = summary st1" by (rule processNextRequest_summary[OF 2])
  have "summary st' = summary st2"
    using assms 1 2
    by (auto simp: handleMessageCompleteReq_def summary_def emit_def Let_def
        split: Option.bind_splits if_splits)
  then show ?thesis using s1 s2 by simp
qed

lemma handleMessageCompleteReq_null:
  "handleMessageCompleteReq e None st = Some (BAD_VALUE, st)"
  by (simp add: handleMessageCompleteReq_def)

lemma handleMessageFlush_summary: "summary (snd (handleMessageFlush e st)) = summary st"
  by (auto simp: handleMessageFlush_def summary_def emit_def clearWorkers_def curPipe_def Let_def
      split: option.splits prod.splits dest: stopWorkers_noNotify)



lemma processRequests_flags:
  assumes "processRequests e de n s st = Some (s', st')"
  shows "mState st' = mState st \<and> mFlushing st' = mFlushing st \<and>
         mCurPipeConfig st' = mCurPipeConfig st \<and> mPipeConfigs st' = mPipeConfigs st \<and>
         mListeners st' = mListeners st \<and> mMessageQueue st' = mMessageQueue st \<and>
         mDelayProcessRequest st' = mDelayProcessRequest st"
  using assms
proof (induction n arbitrary: s st)
  case 0
  then show ?case by simp
next
  case (Suc n)
  then obtain request rest where u: "mMessagesUnderwork st = request # rest"
    by (cases "mMessagesUnderwork st") auto
  obtain s1 es where r: "runBoundWorkers e request (boundWorkers st (getId request)) s = (s1, es)"
    by (cases "runBoundWorkers e request (boundWorkers st (getId request)) s")
  have rec: "processRequests e de n s1 (retire de s1 request (emit es st)) = Some (s', st')"
    using Suc.prems(1) u r by simp
  show ?case using Suc.IH[OF rec] by (simp add: retire_def emit_def Let_def)
qed

lemma startProcessing_flags:
  assumes "startProcessing e ev st = Some (s', st')"
  shows "mState st' = mState st \<and> mFlushing st' = mFlushing st \<and>
         mCurPipeConfig st' = mCurPipeConfig st \<and> mPipeConfigs st' = mPipeConfigs st \<and>
         mListeners st' = mListeners st \<and> mMessageQueue st' = mMessageQueue st"
  using assms
  by (auto simp: startProcessing_def Let_def emit_def
      simp del: processRequests.simps
      split: list.splits if_splits Option.bind_splits
      dest!: processRequests_flags)



lemma held_setListeners: "held (setListeners xs ls st) = held st"
  unfolding setListeners_def by (induction ls arbitrary: st) (simp_all add: held_def)

lemma held_mapStream: "held (snd (mapStreamWithDeviceNode st)) = held st"
proof -
  have a: "\<And>s m. held (setPreview s m) = held m" by (simp add: setPreview_def held_def Let_def)
  have b: "\<And>s m. held (setVideo s m) = held m" by (simp add: setVideo_def held_def)
  have c: "held (st\<lparr>mStreamNodeMapping := Map.empty, mStreamListenerMapping := []\<rparr>) = held st"
    by (simp add: held_def)
  show ?thesis
    unfolding mapStreamWithDeviceNode_def Let_def
    by (auto simp: held_setListeners a b c split: sum.splits prod.splits option.splits)
qed

lemma completionIds_addListener [simp]:
  "completionIds (map (\<lambda>it. AddListener w (fst it)) xs) = []"
  by (rule completionIds_map_noNotify) simp

lemma held_setStreamListeners: "held (setStreamListeners n w st) = held st"
  by (simp add: setStreamListeners_def emit_def held_def)

lemma held_nodeStream: "held (snd (nodeStream n st)) = held st"
  by (simp add: nodeStream_def held_def split: option.splits)

lemma held_updPipe: "held (updPipe i f st) = held st"
  by (simp add: updPipe_def held_def)

lemma held_upd [simp]:
  "held (st\<lparr>mListenerDeviceWorkers := x\<rparr>) = held st"
  "held (st\<lparr>mCurPipeConfig := y\<rparr>) = held st"
  "held (st\<lparr>mConfiguredNodesPerName := z\<rparr>) = held st"
  "held (st\<lparr>mActiveStreams := a\<rparr>) = held st"
  "held (st\<lparr>mFirstRequest := b\<rparr>) = held st"
  "held (st\<lparr>mNeedRestartPoll := b\<rparr>) = held st"
  "held (st\<lparr>mTakingPicture := b\<rparr>) = held st"
  by (simp_all add: held_def)

lemma held_nodeStream': "nodeStream n st = (s, st1) \<Longrightarrow> held st1 = held st"
  using held_nodeStream[of n st] by simp

lemma held_createWorkers: "held (snd (createWorkers d its vf pv st)) = held st"
proof (induction its arbitrary: vf pv st)
  case Nil
  then show ?case by simp
next
  case (Cons it rest)
  show ?case
    by (auto simp: Let_def Cons held_setStreamListeners held_updPipe
        split: prod.splits dest: held_nodeStream')
qed

lemma completionIds_configureWorkers [simp]: "completionIds (snd (configureWorkers c ws)) = []"
  by (induction ws) (auto split: prod.splits)

lemma configureWorkers_noNotify: "configureWorkers c ws = (res, es) \<Longrightarrow> completionIds es = []"
  using completionIds_configureWorkers[of c ws] by simp

lemma held_emit: "completionIds es = [] \<Longrightarrow> held (emit es st) = held st"
  by (simp add: held_def emit_def)

lemma completionIds_attach [simp]:
  "completionIds (concat (map (\<lambda>w. map (AttachListener w) ls) ws)) = []"
proof (induction ws)
  case Nil
  then show ?case by simp
next
  case (Cons w ws)
  have "completionIds (map (AttachListener w) ls) = []"
    by (rule completionIds_map_noNotify) simp
  then show ?case using Cons by simp
qed

lemma held_prepareStillPipe: "held (prepareStillPipe pv st) = held st"
  by (simp add: prepareStillPipe_def Let_def held_emit held_updPipe split: option.splits)

lemma held_prepareVideoPipe: "held (prepareVideoPipe vf pv st) = held st"
  by (simp add: prepareVideoPipe_def Let_def held_emit held_updPipe held_setStreamListeners
      split: option.splits)

lemma held_addInputWorker: "held (addInputWorker d st) = held st"
  by (simp add: addInputWorker_def Let_def held_updPipe split: option.splits)

lemma held_createProcessingTasks_workers:
  "held (snd (createProcessingTasks_workers c st)) = held st"
proof -
  obtain mapped st1 where m: "mapStreamWithDeviceNode st = (mapped, st1)"
    by (cases "mapStreamWithDeviceNode st")
  have h1: "held st1 = held st" using held_mapStream[of st] m by simp
  obtain r st2 where cw: "createWorkers (pipelineDepth c) (mConfiguredNodesPerName st1) None None st1 = (r, st2)"
    by (cases "createWorkers (pipelineDepth c) (mConfiguredNodesPerName st1) None None st1")
  have h2: "held st2 = held st" using held_createWorkers[of "pipelineDepth c" "mConfiguredNodesPerName st1" None None st1] cw h1 by simp
  show ?thesis
    unfolding createProcessingTasks_workers_def Let_def m
    using h1 h2 cw
    by (auto simp: held_emit held_prepareStillPipe held_prepareVideoPipe held_addInputWorker
        split: option.splits prod.splits dest: configureWorkers_noNotify)
qed

lemma held_clearWorkers: "held (clearWorkers st) = held st"
  by (simp add: clearWorkers_def held_def)

lemma held_createProcessingTasks: "held (snd (createProcessingTasks c st)) = held st"
  unfolding createProcessingTasks_def Let_def
  by (simp add: held_emit held_clearWorkers held_createProcessingTasks_workers)

lemma held_classifyStreams:
  "classifyStreams g xs st = Some st' \<Longrightarrow> held st' = held st"
proof (induction xs arbitrary: st)
  case Nil
  then show ?case by simp
next
  case (Cons s rest)
  then show ?case
    by (auto simp: Let_def held_emit split: if_splits pixel_format.splits)
qed

lemma held_configStreams:
  assumes "configStreams c xs st = Some (s, st')"
  shows "held st' = held (st\<lparr>mFlushing := False\<rparr>)"
proof -
  define st1 where "st1 = st\<lparr>mActiveStreams := \<lparr>blobStreams = [], rawStreams = [], yuvStreams = [],
                                            inputStream = None\<rparr>,
                     mFirstRequest := True, mNeedRestartPoll := True, mCurPipeConfig := None,
                     mTakingPicture := False, mFlushing := False\<rparr>"
  have h1: "held st1 = held (st\<lparr>mFlushing := False\<rparr>)" by (simp add: st1_def held_def)
  obtain st2 where c: "classifyStreams (graphConfigNull c) xs st1 = Some st2"
    using assms by (auto simp: configStreams_def st1_def Let_def split: Option.bind_splits)
  have h2: "held st2 = held st1" by (rule held_classifyStreams[OF c])
  obtain status st3 where p: "createProcessingTasks c st2 = (status, st3)"
    by (cases "createProcessingTasks c st2")
  have h3: "held st3 = held st2" using held_createProcessingTasks[of c st2] p by simp
  have "held st' = held st3"
    using assms c p
    by (auto simp: configStreams_def st1_def[symmetric] Let_def held_emit
        split: Option.bind_splits if_splits)
  then show ?thesis using h1 h2 h3 by simp
qed

lemma ex_state_reached: "execs ex_setup ImguUnit_new = Some ex_state"
proof -
  have "execs ex_setup ImguUnit_new \<noteq> None" by code_simp
  then show ?thesis by (auto simp: ex_state_def)
qed

lemma ex_state_facts:
  "mMessagesUnderwork ex_state = [ex_request 5, ex_request 6]"
  "mDelayProcessRequest ex_state = []"
  "curPipe ex_state = Some (mPipeConfigs ex_state PIPE_VIDEO_INDEX)"
  "mListeners ex_state = [0]"
  "mErrCb ex_state = False"
  by code_simp+




lemma orderChain_held:
  "held st' = held st \<Longrightarrow> orderChain st' = orderChain st"
  by (simp add: held_def orderChain_def)






















lemma handleMessage_flags:
  assumes "handleMessage e msg st = Some (s, st')"
  shows "mState st' = mState st \<and> mFlushing st' = mFlushing st"
proof (cases msg)
  case MESSAGE_ID_EXIT
  then show ?thesis using assms by auto
next
  case (MESSAGE_COMPLETE_REQ r)
  show ?thesis
  proof (cases r)
    case None
    then show ?thesis using assms MESSAGE_COMPLETE_REQ by (simp add: handleMessageCompleteReq_null)
  next
    case (Some request)
    then show ?thesis
      using handleMessageCompleteReq_summary[of e request st s st'] assms MESSAGE_COMPLETE_REQ
      by (simp add: summary_def)
  qed
next
  case (MESSAGE_ID_POLL ev)
  then show ?thesis using startProcessing_flags[of e ev st s st'] assms by simp
next
  case MESSAGE_ID_FLUSH
  then show ?thesis
    using handleMessageFlush_summary[of e st] assms by (auto simp: summary_def)
qed

lemma exec_flags:
  assumes "exec x st = Some st'"
  shows "mState st' = mState st \<and> (\<not> isConfigStreams x \<and> mFlushing st \<longrightarrow> mFlushing st')"
proof (cases x)
  case (ConfigStreams c xs)
  then obtain s where "configStreams c xs st = Some (s, st')" using assms by auto
  from held_configStreams[OF this] show ?thesis using ConfigStreams by (simp add: held_def)
next
  case (CompleteRequest r)
  then show ?thesis using assms by (cases r) (auto simp: completeRequest_def send_def)
next
  case (NotifyPollEvent pm)
  then show ?thesis
    using assms by (auto simp: notifyPollEvent_def send_def Let_def split: option.splits if_splits)
next
  case Flush
  then show ?thesis using assms by (auto simp: flush_def send_def)
next
  case (AttachListenerOp l)
  then show ?thesis using assms by (auto simp: attachListener_def)
next
  case ThreadStart
  then show ?thesis using assms by auto
next
  case (ThreadIteration e)
  show ?thesis
  proof (cases "\<not> mThreadRunning st \<or> mMessageQueue st = []")
    case True
    then have "st' = st" using assms ThreadIteration by (auto split: list.splits)
    then show ?thesis by simp
  next
    case False
    then obtain msg q where q: "mMessageQueue st = msg # q" by (cases "mMessageQueue st") auto
    then obtain s where "handleMessage e msg (st\<lparr>mMessageQueue := q\<rparr>) = Some (s, st')"
      using assms ThreadIteration False by auto
    from handleMessage_flags[OF this] show ?thesis by simp
  qed
qed

lemma execs_flags:
  assumes "execs ops st = Some st'"
  shows "mState st' = mState st \<and>
         ((\<forall>x\<in>set ops. \<not> isConfigStreams x) \<and> mFlushing st \<longrightarrow> mFlushing st')"
  using assms
proof (induction ops arbitrary: st)
  case Nil
  then show ?case by simp
next
  case (Cons x ops)
  then obtain st1 where 1: "exec x st = Some st1" and 2: "execs ops st1 = Some st'"
    by (auto split: option.splits)
  from exec_flags[OF 1] Cons.IH[OF 2] show ?case by auto
qed

lemma stopWorkers_all_ok:
  "\<forall>w\<in>set ws. stopWorker e w = OK \<Longrightarrow> fst (stopWorkers e ws) = None"
  by (induction ws) (auto split: prod.splits)

lemma stopWorkers_some_fail:
  "\<exists>w\<in>set ws. stopWorker e w \<noteq> OK \<Longrightarrow> \<exists>s. fst (stopWorkers e ws) = Some s \<and> s \<noteq> OK"
proof (induction ws)
  case Nil
  then show ?case by simp
next
  case (Cons a ws)
  show ?case
  proof (cases "stopWorker e a = OK")
    case False
    then show ?thesis by simp
  next
    case True
    then have "\<exists>w\<in>set ws. stopWorker e w \<noteq> OK" using Cons.prems by auto
    from Cons.IH[OF this] show ?thesis using True by (auto split: prod.splits)
  qed
qed

text \<open>
  Claim C3, as amended. In every state the controller reaches, handling a flush message
  leaves \<open>mState\<close> at \<open>IMGU_IDLE\<close> (no operation ever writes it). When there is no current
  PipeConfig or every Worker of it stops, the handler returns \<open>NO_ERROR\<close> with the
  Worker, pollable-Worker and node lists of every PipeConfig, and the listener-Worker
  list, empty. When a Worker fails to stop, the handler returns that failure at once and
  the lists are left as they were.
\<close>

theorem flush_bookkeeping:
  assumes "execs ops ImguUnit_new = Some st"
  shows "mState (snd (handleMessageFlush e st)) = IMGU_IDLE \<and>
         ((\<forall>cfg. curPipe st = Some cfg \<longrightarrow> (\<forall>w\<in>set (deviceWorkers cfg). stopWorker e w = OK)) \<longrightarrow>
            fst (handleMessageFlush e st) = NO_ERROR \<and>
            mPipeConfigs (snd (handleMessageFlush e st)) = (\<lambda>i. emptyPipe) \<and>
            mListenerDeviceWorkers (snd (handleMessageFlush e st)) = []) \<and>
         (\<forall>cfg. curPipe st = Some cfg \<and> (\<exists>w\<in>set (deviceWorkers cfg). stopWorker e w \<noteq> OK) \<longrightarrow>
            fst (handleMessageFlush e st) \<noteq> OK \<and>
            mPipeConfigs (snd (handleMessageFlush e st)) = mPipeConfigs st \<and>
            mListenerDeviceWorkers (snd (handleMessageFlush e st)) = mListenerDeviceWorkers st)"
proof -
  have idle: "mState st = IMGU_IDLE"
    using execs_flags[OF assms] by (simp add: ImguUnit_new_def)
  have a: "mState (snd (handleMessageFlush e st)) = IMGU_IDLE"
    using handleMessageFlush_summary[of e st] idle by (simp add: summary_def)
  have b: "(\<forall>cfg. curPipe st = Some cfg \<longrightarrow> (\<forall>w\<in>set (deviceWorkers cfg). stopWorker e w = OK)) \<longrightarrow>
            fst (handleMessageFlush e st) = NO_ERROR \<and>
            mPipeConfigs (snd (handleMessageFlush e st)) = (\<lambda>i. emptyPipe) \<and>
            mListenerDeviceWorkers (snd (handleMessageFlush e st)) = []"
  proof
    assume h: "\<forall>cfg. curPipe st = Some cfg \<longrightarrow> (\<forall>w\<in>set (deviceWorkers cfg). stopWorker e w = OK)"
    show "fst (handleMessageFlush e st) = NO_ERROR \<and>
            mPipeConfigs (snd (handleMessageFlush e st)) = (\<lambda>i. emptyPipe) \<and>
            mListenerDeviceWorkers (snd (handleMessageFlush e st)) = []"
    proof (cases "curPipe st")
      case None
      then show ?thesis
        by (simp add: handleMessageFlush_def Let_def curPipe_def emit_def clearWorkers_def)
    next
      case (Some cfg)
      then have "fst (stopWorkers e (deviceWorkers cfg)) = None"
        using h stopWorkers_all_ok by blast
      then show ?thesis
        using Some
        by (auto simp: handleMessageFlush_def Let_def curPipe_def emit_def clearWorkers_def
            split: prod.splits)
    qed
  qed
  have c: "\<forall>cfg. curPipe st = Some cfg \<and> (\<exists>w\<in>set (deviceWorkers cfg). stopWorker e w \<noteq> OK) \<longrightarrow>
            fst (handleMessageFlush e st) \<noteq> OK \<and>
            mPipeConfigs (snd (handleMessageFlush e st)) = mPipeConfigs st \<and>
            mListenerDeviceWorkers (snd (handleMessageFlush e st)) = mListenerDeviceWorkers st"
  proof (intro allI impI)
    fix cfg
    assume h: "curPipe st = Some cfg \<and> (\<exists>w\<in>set (deviceWorkers cfg). stopWorker e w \<noteq> OK)"
    then obtain s where "fst (stopWorkers e (deviceWorkers cfg)) = Some s" "s \<noteq> OK"
      using stopWorkers_some_fail by blast
    then show "fst (handleMessageFlush e st) \<noteq> OK \<and>
            mPipeConfigs (snd (handleMessageFlush e st)) = mPipeConfigs st \<and>
            mListenerDeviceWorkers (snd (handleMessageFlush e st)) = mListenerDeviceWorkers st"
      using h
      by (auto simp: handleMessageFlush_def Let_def curPipe_def emit_def split: prod.splits)
  qed
  from a b c show ?thesis by blast
qed

lemma ex_state_workers:
  "deviceWorkers (mPipeConfigs ex_state PIPE_VIDEO_INDEX)
     = [OutputFrameWorker (Some 10) (Some ex_1080p') IMGU_NODE_VIDEO 4]"
  by code_simp

theorem flush_bookkeeping_witness:
  "mState (snd (handleMessageFlush ex_collab ex_state)) = IMGU_IDLE \<and>
   fst (handleMessageFlush ex_collab ex_state) = NO_ERROR \<and>
   mPipeConfigs (snd (handleMessageFlush ex_collab ex_state)) = (\<lambda>i. emptyPipe) \<and>
   mListenerDeviceWorkers (snd (handleMessageFlush ex_collab ex_state)) = [] \<and>
   fst (handleMessageFlush ex_stop_fails ex_state) \<noteq> OK \<and>
   mPipeConfigs (snd (handleMessageFlush ex_stop_fails ex_state)) = mPipeConfigs ex_state"
proof -
  have ok: "\<forall>cfg. curPipe ex_state = Some cfg \<longrightarrow>
              (\<forall>w\<in>set (deviceWorkers cfg). stopWorker ex_collab w = OK)"
    by (simp add: ex_collab_def)
  have bad: "curPipe ex_state = Some (mPipeConfigs ex_state PIPE_VIDEO_INDEX) \<and>
             (\<exists>w\<in>set (deviceWorkers (mPipeConfigs ex_state PIPE_VIDEO_INDEX)).
                stopWorker ex_stop_fails w \<noteq> OK)"
    by (simp add: ex_state_facts ex_state_workers ex_stop_fails_def UNKNOWN_ERROR_def OK_def)
  show ?thesis
    using flush_bookkeeping[OF ex_state_reached, of ex_collab]
          flush_bookkeeping[OF ex_state_reached, of ex_stop_fails] ok bad
    by blast
qed

text \<open>
  The claim as stated fails when a Worker does not stop: the video PipeConfig keeps its
  Worker and its node.
\<close>

theorem flush_bookkeeping_counterexample:
  "execs ex_setup ImguUnit_new = Some ex_state \<and>
   fst (handleMessageFlush ex_stop_fails ex_state) = UNKNOWN_ERROR \<and>
   deviceWorkers (mPipeConfigs (snd (handleMessageFlush ex_stop_fails ex_state)) PIPE_VIDEO_INDEX)
     = [OutputFrameWorker (Some 10) (Some ex_1080p') IMGU_NODE_VIDEO 4] \<and>
   nodes (mPipeConfigs (snd (handleMessageFlush ex_stop_fails ex_state)) PIPE_VIDEO_INDEX)
     = [Some 10]"
proof -
  have "fst (handleMessageFlush ex_stop_fails ex_state) = UNKNOWN_ERROR \<and>
   deviceWorkers (mPipeConfigs (snd (handleMessageFlush ex_stop_fails ex_state)) PIPE_VIDEO_INDEX)
     = [OutputFrameWorker (Some 10) (Some ex_1080p') IMGU_NODE_VIDEO 4] \<and>
   nodes (mPipeConfigs (snd (handleMessageFlush ex_stop_fails ex_state)) PIPE_VIDEO_INDEX)
     = [Some 10]"
    by code_simp
  then show ?thesis using ex_state_reached by simp
qed

text \<open>
  Claim C10. After \<open>flush\<close>, along any further steps without a \<open>configStreams\<close>
  (handling the flush message included), \<open>mFlushing\<close> stays set and a poll-event
  notification changes nothing: no message is queued, and a successful one (a ready set as
  large as the polled set) returns \<open>OK\<close>. The flush handler leaves the flag set;
  \<open>configStreams\<close> clears it.
\<close>

theorem flushing_drops_poll_events:
  assumes "execs ops (flush st) = Some st'"
      and "\<forall>x\<in>set ops. \<not> isConfigStreams x"
      and "pm_id pm = POLL_EVENT_ID_EVENT"
  shows "mFlushing st' \<and>
         snd (snd (notifyPollEvent (Some pm) st')) = st' \<and>
         (pm_activeDevices pm = Some active \<and> active \<noteq> [] \<and>
          length active = length (pm_polledDevices pm) \<longrightarrow>
            notifyPollEvent (Some pm) st' = (OK, Some pm, st')) \<and>
         mFlushing (snd (handleMessageFlush e st')) \<and>
         (configStreams c xs st' = Some (s, st'') \<longrightarrow> \<not> mFlushing st'')"
proof -
  have f: "mFlushing st'"
    using execs_flags[OF assms(1)] assms(2) by (simp add: flush_def send_def)
  have a: "snd (snd (notifyPollEvent (Some pm) st')) = st'"
    using f assms(3) by (simp add: notifyPollEvent_def split: option.splits)
  have b: "pm_activeDevices pm = Some active \<and> active \<noteq> [] \<and>
          length active = length (pm_polledDevices pm) \<longrightarrow>
            notifyPollEvent (Some pm) st' = (OK, Some pm, st')"
    using f assms(3) by (auto simp: notifyPollEvent_def)
  have c: "mFlushing (snd (handleMessageFlush e st'))"
    using handleMessageFlush_summary[of e st'] f by (simp add: summary_def)
  have d: "configStreams c xs st' = Some (s, st'') \<longrightarrow> \<not> mFlushing st''"
    using held_configStreams[of c xs st' s st''] by (auto simp: held_def)
  from f a b c d show ?thesis by blast
qed

theorem flushing_drops_poll_events_witness:
  "\<exists>st'. execs [ThreadIteration ex_collab] (flush ex_state) = Some st' \<and> mFlushing st' \<and>
         notifyPollEvent (Some (ex_poll 5)) st' = (OK, Some (ex_poll 5), st')"
proof -
  have "execs [ThreadIteration ex_collab] (flush ex_state) \<noteq> None" by code_simp
  then obtain st' where r: "execs [ThreadIteration ex_collab] (flush ex_state) = Some st'"
    by auto
  have n: "\<forall>x\<in>set [ThreadIteration ex_collab]. \<not> isConfigStreams x" by simp
  have p: "pm_id (ex_poll 5) = POLL_EVENT_ID_EVENT" by (simp add: ex_poll_def)
  have q: "pm_activeDevices (ex_poll 5) = Some [Some 10] \<and> [Some 10 :: nat option] \<noteq> [] \<and>
           length [Some 10 :: nat option] = length (pm_polledDevices (ex_poll 5))"
    by (simp add: ex_poll_def)
  show ?thesis
    using flushing_drops_poll_events[OF r n p, of "[Some 10]"] q r by blast
qed


lemma settingsLoop_nonnull:
  "\<forall>t\<in>set ts. t \<noteq> None \<Longrightarrow>
   \<exists>s. settingsLoop e ts r s0 = (Some s, map (\<lambda>t. Settings (the t) r) ts)"
proof (induction ts arbitrary: s0)
  case Nil
  then show ?case by simp
next
  case (Cons t ts)
  then obtain lTask where t: "t = Some lTask" by auto
  from Cons obtain s where "settingsLoop e ts r (s0 OR settings e lTask r)
                              = (Some s, map (\<lambda>t. Settings (the t) r) ts)"
    by fastforce
  then show ?case using t by simp
qed

lemma startWorkers_all_ok:
  "\<forall>w\<in>set ws. startWorker e w = OK \<Longrightarrow> startWorkers e ws = (OK, map StartWorker ws)"
  by (induction ws) auto

lemma prepareLoop_dummy:
  assumes "\<forall>x\<in>set pre. getNode x \<noteq> None" "getNode w = None" "0 < getInputBuffers r"
  shows "\<exists>s. prepareLoop e r (pre @ w # post) s0 = (s, map (\<lambda>x. PrepareRun x r) (pre @ [w]), Some w)"
  using assms(1)
proof (induction pre arbitrary: s0)
  case Nil
  then show ?case using assms(2,3) by simp
next
  case (Cons a pre)
  then obtain s where "prepareLoop e r (pre @ w # post) (s0 OR prepareRun e a r)
                         = (s, map (\<lambda>x. PrepareRun x r) (pre @ [w]), Some w)"
    by fastforce
  then show ?case using Cons.prems by simp
qed

lemma processNextRequest_workers_dummy:
  assumes cur: "mCurPipeConfig st = Some i"
      and dw: "deviceWorkers (mPipeConfigs st i) = pre @ w # post"
      and pre: "\<forall>x\<in>set pre. getNode x \<noteq> None" and w: "getNode w = None"
      and inp: "0 < getInputBuffers request"
  shows "\<exists>s. processNextRequest_workers e request s0 st =
           Some (s, st\<lparr>mPipeConfigs := (mPipeConfigs st)(i := (mPipeConfigs st i)\<lparr>nodes := []\<rparr>),
                       mRequestToWorkMap := (mRequestToWorkMap st)(getId request \<mapsto> [w]),
                       calls := calls st @ map (\<lambda>x. PrepareRun x request) (pre @ [w]),
                       mMessageQueue := mMessageQueue st @ [dummyMsg request]\<rparr>)"
proof -
  obtain s where pl: "prepareLoop e request (pre @ w # post) s0
                        = (s, map (\<lambda>x. PrepareRun x request) (pre @ [w]), Some w)"
    using prepareLoop_dummy[OF pre w inp] by blast
  have "processNextRequest_workers e request s0 st =
           Some (s, st\<lparr>mPipeConfigs := (mPipeConfigs st)(i := (mPipeConfigs st i)\<lparr>nodes := []\<rparr>),
                       mRequestToWorkMap := (mRequestToWorkMap st)(getId request \<mapsto> [w]),
                       calls := calls st @ map (\<lambda>x. PrepareRun x request) (pre @ [w]),
                       mMessageQueue := mMessageQueue st @ [dummyMsg request]\<rparr>)"
    using cur dw pl
    by (simp add: processNextRequest_workers_def setCurNodes_def curPipe_def Let_def
        bindWorkers_def boundWorkers_def emit_def send_def)
  then show ?thesis by blast
qed

lemma dummy_poll_admission:
  assumes pend: "mMessagesPending st = []"
      and cur: "mCurPipeConfig st = Some i"
      and dw: "deviceWorkers (mPipeConfigs st i) = pre @ w # post"
      and pre: "\<forall>x\<in>set pre. getNode x \<noteq> None" and w: "getNode w = None"
      and inp: "0 < getInputBuffers request"
      and tasks: "\<forall>t\<in>set (mListeningTasks st). t \<noteq> None"
      and first: "mFirstRequest st \<longrightarrow> (\<forall>x\<in>set (pre @ w # post). startWorker e x = OK)"
  shows "\<exists>s st'. handleMessageCompleteReq e (Some request) st = Some (s, st') \<and>
           mRequestToWorkMap st' (getId request) = Some [w] \<and>
           mMessageQueue st' = mMessageQueue st @
             [MESSAGE_ID_POLL \<lparr>requestId = word_of_int (getId request), numDevices = 0,
                               polledDevices = 0, activeDevices = None\<rparr>] \<and>
           mMessagesUnderwork st' = mMessagesUnderwork st @ [request] \<and>
           mMessagesPending st' = [] \<and>
           calls st' = calls st @ map (\<lambda>t. Settings (the t) request) (mListeningTasks st)
                        @ (if mFirstRequest st then map StartWorker (pre @ w # post) else [])
                        @ map (\<lambda>x. PrepareRun x request) (pre @ [w])
                        @ (if s \<noteq> OK then [SetError (getId request)] else [])"
proof -
  define stA where "stA = st\<lparr>mMessagesPending := [Some request],
                             mPipeConfigs := (mPipeConfigs st)(i := (mPipeConfigs st i)\<lparr>nodes := []\<rparr>)\<rparr>"
  have a: "setCurNodes [] (st\<lparr>mMessagesPending := mMessagesPending st @ [Some request]\<rparr>) = Some stA"
    using cur pend by (simp add: setCurNodes_def stA_def)
  obtain s1 where sl: "settingsLoop e (mListeningTasks st) request NO_ERROR
                        = (Some s1, map (\<lambda>t. Settings (the t) request) (mListeningTasks st))"
    using settingsLoop_nonnull[OF tasks] by blast
  define st2 where "st2 = stA\<lparr>mMessagesPending := [],
                              mMessagesUnderwork := mMessagesUnderwork st @ [request],
                              calls := calls st @ map (\<lambda>t. Settings (the t) request) (mListeningTasks st)\<rparr>"
  have cur2: "mCurPipeConfig st2 = Some i" by (simp add: st2_def stA_def cur)
  have dw2: "deviceWorkers (mPipeConfigs st2 i) = pre @ w # post"
    by (simp add: st2_def stA_def dw)
  define st3 where "st3 = (if mFirstRequest st
                           then st2\<lparr>calls := calls st2 @ map StartWorker (pre @ w # post),
                                    mFirstRequest := False\<rparr>
                           else st2)"
  have cur3: "mCurPipeConfig st3 = Some i" by (simp add: st3_def cur2)
  have dw3: "deviceWorkers (mPipeConfigs st3 i) = pre @ w # post"
    by (simp add: st3_def dw2)
  have ks: "mFirstRequest st \<Longrightarrow> kickstart e st2 = Some (OK, st3)"
  proof -
    assume f: "mFirstRequest st"
    then have "startWorkers e (pre @ w # post) = (OK, map StartWorker (pre @ w # post))"
      using first startWorkers_all_ok by blast
    then show ?thesis
      using cur2 dw2 f by (simp add: kickstart_def curPipe_def st3_def emit_def)
  qed
  have pnr: "processNextRequest e stA =
               processNextRequest_workers e request (if mFirstRequest st then OK else s1) st3"
  proof (cases "mFirstRequest st")
    case True
    then have f2: "mFirstRequest st2" by (simp add: st2_def stA_def)
    show ?thesis
      using sl True f2 ks[OF True]
      by (simp add: processNextRequest_def stA_def[symmetric] st2_def[symmetric] emit_def Let_def)
         (simp add: stA_def st2_def emit_def f2 ks[OF True, unfolded st2_def stA_def])
  next
    case False
    then have f2: "\<not> mFirstRequest st2" by (simp add: st2_def stA_def)
    show ?thesis
      using sl False f2
      by (simp add: processNextRequest_def Let_def emit_def stA_def st2_def st3_def)
  qed
  obtain s where w3: "processNextRequest_workers e request (if mFirstRequest st then OK else s1) st3 =
           Some (s, st3\<lparr>mPipeConfigs := (mPipeConfigs st3)(i := (mPipeConfigs st3 i)\<lparr>nodes := []\<rparr>),
                       mRequestToWorkMap := (mRequestToWorkMap st3)(getId request \<mapsto> [w]),
                       calls := calls st3 @ map (\<lambda>x. PrepareRun x request) (pre @ [w]),
                       mMessageQueue := mMessageQueue st3 @ [dummyMsg request]\<rparr>)"
    using processNextRequest_workers_dummy[OF cur3 dw3 pre w inp] by blast
  define st4 where "st4 = st3\<lparr>mPipeConfigs := (mPipeConfigs st3)(i := (mPipeConfigs st3 i)\<lparr>nodes := []\<rparr>),
                       mRequestToWorkMap := (mRequestToWorkMap st3)(getId request \<mapsto> [w]),
                       calls := calls st3 @ map (\<lambda>x. PrepareRun x request) (pre @ [w]),
                       mMessageQueue := mMessageQueue st3 @ [dummyMsg request]\<rparr>"
  define st5 where "st5 = (if s \<noteq> OK then emit [SetError (getId request)] st4 else st4)"
  have p: "processNextRequest e stA = Some (s, st4)"
    using pnr w3 by (simp add: st4_def)
  have c4: "curPipe st4 = Some (mPipeConfigs st4 i)" "nodes (mPipeConfigs st4 i) = []"
    by (simp_all add: st4_def curPipe_def cur3)
  have c4e: "\<And>es. curPipe (emit es st4) = Some (mPipeConfigs st4 i)"
    by (simp add: st4_def curPipe_def cur3 emit_def)
  have res: "handleMessageCompleteReq e (Some request) st = Some (s, st5)"
    by (simp add: handleMessageCompleteReq_def a p Let_def st5_def c4 c4e)
  have "mRequestToWorkMap st5 (getId request) = Some [w] \<and>
           mMessageQueue st5 = mMessageQueue st @
             [MESSAGE_ID_POLL \<lparr>requestId = word_of_int (getId request), numDevices = 0,
                               polledDevices = 0, activeDevices = None\<rparr>] \<and>
           mMessagesUnderwork st5 = mMessagesUnderwork st @ [request] \<and>
           mMessagesPending st5 = [] \<and>
           calls st5 = calls st @ map (\<lambda>t. Settings (the t) request) (mListeningTasks st)
                        @ (if mFirstRequest st then map StartWorker (pre @ w # post) else [])
                        @ map (\<lambda>x. PrepareRun x request) (pre @ [w])
                        @ (if s \<noteq> OK then [SetError (getId request)] else [])"
    by (simp add: st5_def st4_def st3_def st2_def stA_def emit_def dummyMsg_def)
  then show ?thesis using res by blast
qed

lemma status_neq': "UNKNOWN_ERROR \<noteq> OK"
  by (simp add: UNKNOWN_ERROR_def OK_def)

lemma setListeners_other:
  assumes "\<And>m y. f (m\<lparr>mStreamListenerMapping := y\<rparr>) = f m"
  shows "f (setListeners xs ls m) = f m"
  unfolding setListeners_def by (induction ls arbitrary: m) (simp_all add: assms)

lemma mapStream_other:
  assumes n: "\<And>m x. f (m\<lparr>mStreamNodeMapping := x\<rparr>) = f m"
      and l: "\<And>m y. f (m\<lparr>mStreamListenerMapping := y\<rparr>) = f m"
  shows "f (snd (mapStreamWithDeviceNode m)) = f m"
proof -
  have a: "\<And>s m. f (setPreview s m) = f m" by (simp add: setPreview_def Let_def n)
  have b: "\<And>s m. f (setVideo s m) = f m" by (simp add: setVideo_def n)
  have c: "f (m\<lparr>mStreamNodeMapping := Map.empty, mStreamListenerMapping := []\<rparr>) = f m"
    by (simp add: n l)
  show ?thesis
    unfolding mapStreamWithDeviceNode_def Let_def
    by (auto simp: setListeners_other[of f, OF l] a b c split: sum.splits prod.splits option.splits)
qed

lemma mapStream_members:
  "mPipeConfigs (snd (mapStreamWithDeviceNode st)) = mPipeConfigs st"
  "mActiveStreams (snd (mapStreamWithDeviceNode st)) = mActiveStreams st"
  "mCurPipeConfig (snd (mapStreamWithDeviceNode st)) = mCurPipeConfig st"
  by (rule mapStream_other; simp)+

lemma nodeStream_members:
  assumes "nodeStream n st = (s, st1)"
  shows "mPipeConfigs st1 = mPipeConfigs st" "mActiveStreams st1 = mActiveStreams st"
        "mCurPipeConfig st1 = mCurPipeConfig st"
  using assms by (auto simp: nodeStream_def split: option.splits)

lemma outputOnly_pushBack:
  "outputOnly cfg \<Longrightarrow> \<not> isInputFrameWorker w \<Longrightarrow> outputOnly (pushBackWorker w cfg)"
  by (simp add: outputOnly_def pushBackWorker_def)

lemma outputOnly_insertFront:
  "outputOnly cfg \<Longrightarrow> \<not> isInputFrameWorker w \<Longrightarrow> outputOnly (insertFrontWorker w cfg)"
  by (simp add: outputOnly_def insertFrontWorker_def)

lemma createWorkers_pipes:
  assumes "outputOnly (mPipeConfigs st PIPE_VIDEO_INDEX)"
      and "\<forall>w. vf = Some w \<longrightarrow> \<not> isInputFrameWorker w"
      and "createWorkers d its vf pv st = (r, st')"
  shows "outputOnly (mPipeConfigs st' PIPE_VIDEO_INDEX) \<and>
         mActiveStreams st' = mActiveStreams st \<and> mCurPipeConfig st' = mCurPipeConfig st \<and>
         (\<forall>vf' pv' w. r = Some (Some w, pv') \<longrightarrow> \<not> isInputFrameWorker w)"
  using assms
proof (induction its arbitrary: vf pv st)
  case Nil
  then show ?case by auto
next
  case (Cons it rest)
  obtain stream st1 where ns: "nodeStream (fst it) st = (stream, st1)"
    by (cases "nodeStream (fst it) st")
  note m1 = nodeStream_members[OF ns]
  define w where "w = OutputFrameWorker (snd it) stream (fst it) d"
  have nw: "\<not> isInputFrameWorker w" by (simp add: w_def)
  consider (video) "fst it = IMGU_NODE_STILL \<or> fst it = IMGU_NODE_VIDEO"
    | (vf) "\<not> (fst it = IMGU_NODE_STILL \<or> fst it = IMGU_NODE_VIDEO)" "fst it = IMGU_NODE_VF_PREVIEW"
    | (pv) "\<not> (fst it = IMGU_NODE_STILL \<or> fst it = IMGU_NODE_VIDEO)" "fst it \<noteq> IMGU_NODE_VF_PREVIEW"
           "fst it = IMGU_NODE_PV_PREVIEW"
    | (raw) "\<not> (fst it = IMGU_NODE_STILL \<or> fst it = IMGU_NODE_VIDEO)" "fst it \<noteq> IMGU_NODE_VF_PREVIEW"
           "fst it \<noteq> IMGU_NODE_PV_PREVIEW" "fst it = IMGU_NODE_RAW"
    | (other) "\<not> (fst it = IMGU_NODE_STILL \<or> fst it = IMGU_NODE_VIDEO)" "fst it \<noteq> IMGU_NODE_VF_PREVIEW"
           "fst it \<noteq> IMGU_NODE_PV_PREVIEW" "fst it \<noteq> IMGU_NODE_RAW"
    by blast
  then show ?case
  proof cases
    case video
    define st3 where "st3 = setStreamListeners (fst it) w (updPipe PIPE_VIDEO_INDEX (pushBackWorker w) st1)"
    define st4 where "st4 = st3\<lparr>mListenerDeviceWorkers := mListenerDeviceWorkers st3 @ [w]\<rparr>"
    have rec: "createWorkers d rest vf pv st4 = (r, st')"
      using Cons.prems(3) video ns by (simp add: Let_def st4_def st3_def w_def)
    have o4: "outputOnly (mPipeConfigs st4 PIPE_VIDEO_INDEX)"
      using Cons.prems(1) m1 nw
      by (simp add: st4_def st3_def setStreamListeners_def emit_def updPipe_def outputOnly_pushBack)
    have f4: "mActiveStreams st4 = mActiveStreams st" "mCurPipeConfig st4 = mCurPipeConfig st"
      using m1 by (simp_all add: st4_def st3_def setStreamListeners_def emit_def updPipe_def)
    show ?thesis using Cons.IH[OF o4 Cons.prems(2) rec] f4 by simp
  next
    case vf
    define st2 where "st2 = setStreamListeners (fst it) w st1"
    define st4 where "st4 = st2\<lparr>mListenerDeviceWorkers := mListenerDeviceWorkers st2 @ [w]\<rparr>"
    have rec: "createWorkers d rest (Some w) pv st4 = (r, st')"
      using Cons.prems(3) vf ns by (simp add: Let_def st4_def st2_def w_def)
    have o4: "outputOnly (mPipeConfigs st4 PIPE_VIDEO_INDEX)"
      using Cons.prems(1) m1 by (simp add: st4_def st2_def setStreamListeners_def emit_def)
    have f4: "mActiveStreams st4 = mActiveStreams st" "mCurPipeConfig st4 = mCurPipeConfig st"
      using m1 by (simp_all add: st4_def st2_def setStreamListeners_def emit_def)
    have v: "\<forall>x. Some w = Some x \<longrightarrow> \<not> isInputFrameWorker x" using nw by simp
    show ?thesis using Cons.IH[OF o4 v rec] f4 by simp
  next
    case pv
    define st2 where "st2 = setStreamListeners (fst it) w st1"
    define st4 where "st4 = st2\<lparr>mListenerDeviceWorkers := mListenerDeviceWorkers st2 @ [w]\<rparr>"
    have rec: "createWorkers d rest vf (Some w) st4 = (r, st')"
      using Cons.prems(3) pv ns by (simp add: Let_def st4_def st2_def w_def)
    have o4: "outputOnly (mPipeConfigs st4 PIPE_VIDEO_INDEX)"
      using Cons.prems(1) m1 by (simp add: st4_def st2_def setStreamListeners_def emit_def)
    have f4: "mActiveStreams st4 = mActiveStreams st" "mCurPipeConfig st4 = mCurPipeConfig st"
      using m1 by (simp_all add: st4_def st2_def setStreamListeners_def emit_def)
    show ?thesis using Cons.IH[OF o4 Cons.prems(2) rec] f4 by simp
  next
    case raw
    then have rec: "createWorkers d rest vf pv st = (r, st')"
      using Cons.prems(3) by simp
    show ?thesis using Cons.IH[OF Cons.prems(1,2) rec] by simp
  next
    case other
    then have "r = None" "st' = st" using Cons.prems(3) by auto
    then show ?thesis using Cons.prems(1) by simp
  qed
qed

lemma configureWorkers_ok:
  "configureWorkers c ws = (Some ret, es) \<Longrightarrow> ret \<noteq> OK"
  by (induction ws arbitrary: es) (auto split: if_splits prod.splits)

lemma input_worker_workers:
  assumes ok: "createProcessingTasks_workers c st = (OK, st')"
      and inp: "inputStream (mActiveStreams st) = Some input"
      and o: "outputOnly (mPipeConfigs st PIPE_VIDEO_INDEX)"
  shows "\<exists>ws. deviceWorkers (mPipeConfigs st' PIPE_VIDEO_INDEX) =
                 InputFrameWorker input
                   (yuvStreams (mActiveStreams st) @ blobStreams (mActiveStreams st))
                   (pipelineDepth c) # ws \<and>
              pollableWorkers (mPipeConfigs st' PIPE_VIDEO_INDEX) = ws \<and>
              nodes (mPipeConfigs st' PIPE_VIDEO_INDEX) = map getNode ws \<and>
              (\<forall>w\<in>set ws. \<not> isInputFrameWorker w)"
proof -
  obtain mapped st1 where m: "mapStreamWithDeviceNode st = (mapped, st1)"
    by (cases "mapStreamWithDeviceNode st")
  have m1: "mPipeConfigs st1 = mPipeConfigs st" "mActiveStreams st1 = mActiveStreams st"
    using mapStream_members[of st] m by simp_all
  have mo: "mapped = OK"
    using ok m status_neq' by (auto simp: createProcessingTasks_workers_def Let_def split: if_splits)
  obtain r st2 where cw: "createWorkers (pipelineDepth c) (mConfiguredNodesPerName st1) None None st1 = (r, st2)"
    by (cases "createWorkers (pipelineDepth c) (mConfiguredNodesPerName st1) None None st1")
  have o1: "outputOnly (mPipeConfigs st1 PIPE_VIDEO_INDEX)" using o m1 by simp
  from createWorkers_pipes[OF o1 _ cw]
  have p2: "outputOnly (mPipeConfigs st2 PIPE_VIDEO_INDEX)"
    and a2: "mActiveStreams st2 = mActiveStreams st"
    and v2: "\<forall>pv' w. r = Some (Some w, pv') \<longrightarrow> \<not> isInputFrameWorker w"
    using m1 by auto
  obtain vf pv where r: "r = Some (vf, pv)"
    using ok m mo cw status_neq'
    by (cases r) (auto simp: createProcessingTasks_workers_def Let_def)
  define st3 where "st3 = prepareStillPipe pv st2"
  define st4 where "st4 = prepareVideoPipe vf pv st3"
  define st5 where "st5 = addInputWorker (pipelineDepth c) st4"
  have p3: "mPipeConfigs st3 PIPE_VIDEO_INDEX = mPipeConfigs st2 PIPE_VIDEO_INDEX"
           "mActiveStreams st3 = mActiveStreams st2"
    by (simp_all add: st3_def prepareStillPipe_def updPipe_def emit_def Let_def split: option.splits)
  have p4: "outputOnly (mPipeConfigs st4 PIPE_VIDEO_INDEX)" "mActiveStreams st4 = mActiveStreams st3"
    using p2 p3 v2 r
    by (auto simp: st4_def prepareVideoPipe_def updPipe_def emit_def setStreamListeners_def Let_def
        outputOnly_insertFront split: option.splits)
  have i4: "inputStream (mActiveStreams st4) = Some input" using p4 p3 a2 inp by simp
  have p5: "deviceWorkers (mPipeConfigs st5 PIPE_VIDEO_INDEX) =
              InputFrameWorker input (yuvStreams (mActiveStreams st) @ blobStreams (mActiveStreams st))
                (pipelineDepth c) # pollableWorkers (mPipeConfigs st4 PIPE_VIDEO_INDEX)"
           "pollableWorkers (mPipeConfigs st5 PIPE_VIDEO_INDEX) = pollableWorkers (mPipeConfigs st4 PIPE_VIDEO_INDEX)"
           "nodes (mPipeConfigs st5 PIPE_VIDEO_INDEX) = nodes (mPipeConfigs st4 PIPE_VIDEO_INDEX)"
    using i4 p4 p3 a2
    by (simp_all add: st5_def addInputWorker_def updPipe_def Let_def outputOnly_def)
  have fin: "mPipeConfigs st' = mPipeConfigs st5"
    using ok m mo cw r
    by (auto simp: createProcessingTasks_workers_def Let_def emit_def
        st3_def[symmetric] st4_def[symmetric] st5_def[symmetric]
        split: prod.splits option.splits dest: configureWorkers_ok)
  show ?thesis
    using p5 p4(1) unfolding fin by (simp add: outputOnly_def)
qed

lemma input_worker_prepended:
  assumes ok: "createProcessingTasks c st = (OK, st')"
      and inp: "inputStream (mActiveStreams st) = Some input"
  shows "\<exists>ws. deviceWorkers (mPipeConfigs st' PIPE_VIDEO_INDEX) =
                 InputFrameWorker input
                   (yuvStreams (mActiveStreams st) @ blobStreams (mActiveStreams st))
                   (pipelineDepth c) # ws \<and>
              pollableWorkers (mPipeConfigs st' PIPE_VIDEO_INDEX) = ws \<and>
              nodes (mPipeConfigs st' PIPE_VIDEO_INDEX) = map getNode ws \<and>
              (\<forall>w\<in>set ws. \<not> isInputFrameWorker w)"
proof -
  have "\<exists>st7. createProcessingTasks_workers c st7 = (OK, st') \<and>
              mPipeConfigs st7 = (\<lambda>i. emptyPipe) \<and> mActiveStreams st7 = mActiveStreams st"
    using ok status_neq'
    by (auto simp: createProcessingTasks_def Let_def emit_def clearWorkers_def
        split: if_splits intro!: exI)
  then obtain st7 where w: "createProcessingTasks_workers c st7 = (OK, st')"
    and p: "mPipeConfigs st7 = (\<lambda>i. emptyPipe)" and a: "mActiveStreams st7 = mActiveStreams st"
    by blast
  have o: "outputOnly (mPipeConfigs st7 PIPE_VIDEO_INDEX)"
    by (simp add: p outputOnly_def emptyPipe_def)
  show ?thesis
    using input_worker_workers[OF w _ o, of input] inp a by simp
qed

lemma createProcessingTasks_workers_active:
  "mActiveStreams (snd (createProcessingTasks_workers c st)) = mActiveStreams st"
proof -
  obtain mapped st1 where m: "mapStreamWithDeviceNode st = (mapped, st1)"
    by (cases "mapStreamWithDeviceNode st")
  have m1: "mActiveStreams st1 = mActiveStreams st"
    using mapStream_members(2)[of st] m by simp
  obtain r st2 where cw: "createWorkers (pipelineDepth c) (mConfiguredNodesPerName st1) None None st1 = (r, st2)"
    by (cases "createWorkers (pipelineDepth c) (mConfiguredNodesPerName st1) None None st1")
  have a: "\<And>pv s. mActiveStreams (prepareStillPipe pv s) = mActiveStreams s"
    by (simp add: prepareStillPipe_def updPipe_def emit_def Let_def split: option.splits)
  have b: "\<And>vf pv s. mActiveStreams (prepareVideoPipe vf pv s) = mActiveStreams s"
    by (simp add: prepareVideoPipe_def updPipe_def emit_def setStreamListeners_def Let_def
        split: option.splits)
  have d: "\<And>n s. mActiveStreams (addInputWorker n s) = mActiveStreams s"
    by (simp add: addInputWorker_def updPipe_def Let_def split: option.splits)
  have st2: "mActiveStreams st2 = mActiveStreams st"
  proof (cases "outputOnly (mPipeConfigs st1 PIPE_VIDEO_INDEX)")
    case True
    from createWorkers_pipes[OF True _ cw] show ?thesis using m1 by simp
  next
    case False
    have "\<And>d its vf pv s r s'. createWorkers d its vf pv s = (r, s') \<Longrightarrow>
            mActiveStreams s' = mActiveStreams s"
    proof -
      fix d its vf pv s r s'
      show "createWorkers d its vf pv s = (r, s') \<Longrightarrow> mActiveStreams s' = mActiveStreams s"
      proof (induction its arbitrary: vf pv s)
        case Nil
        then show ?case by auto
      next
        case (Cons it rest)
        then show ?case
          by (auto simp: Let_def setStreamListeners_def emit_def updPipe_def
              split: prod.splits if_splits dest!: nodeStream_members(2))
      qed
    qed
    from this[OF cw] show ?thesis using m1 by simp
  qed
  show ?thesis
    unfolding createProcessingTasks_workers_def Let_def m
    using st2 cw m1
    by (auto simp: a b d emit_def split: option.splits prod.splits)
qed

lemma createProcessingTasks_active:
  "mActiveStreams (snd (createProcessingTasks c st)) = mActiveStreams st"
  unfolding createProcessingTasks_def Let_def
  by (simp add: createProcessingTasks_workers_active emit_def clearWorkers_def)

lemma configStreams_input_worker:
  assumes ok: "configStreams c activeStreams st = Some (OK, st')"
      and inp: "inputStream (mActiveStreams st') = Some input"
  shows "\<exists>ws. deviceWorkers (mPipeConfigs st' PIPE_VIDEO_INDEX) =
                 InputFrameWorker input
                   (yuvStreams (mActiveStreams st') @ blobStreams (mActiveStreams st'))
                   (pipelineDepth c) # ws \<and>
              pollableWorkers (mPipeConfigs st' PIPE_VIDEO_INDEX) = ws \<and>
              nodes (mPipeConfigs st' PIPE_VIDEO_INDEX) = map getNode ws \<and>
              (\<forall>w\<in>set ws. \<not> isInputFrameWorker w)"
proof -
  obtain st2 status st3 where
    p: "createProcessingTasks c st2 = (status, st3)" and s: "status = NO_ERROR"
    and e: "st' = emit [PollerInit (nodes (the (curPipe st3)))] st3"
    using ok status_neq'
    by (auto simp: configStreams_def Let_def split: Option.bind_splits if_splits prod.splits)
  have a3: "mActiveStreams st3 = mActiveStreams st2"
    using createProcessingTasks_active[of c st2] p by simp
  have a': "mActiveStreams st' = mActiveStreams st3" "mPipeConfigs st' = mPipeConfigs st3"
    by (simp_all add: e emit_def)
  have ok2: "createProcessingTasks c st2 = (OK, st3)" using p s by (simp add: NO_ERROR_def OK_def)
  have i2: "inputStream (mActiveStreams st2) = Some input" using inp a' a3 by simp
  show ?thesis
    using input_worker_prepended[OF ok2 i2] a' a3 by simp
qed

text \<open>
  Claim C6. After a successful \<open>configStreams\<close> with an input stream, the Worker list
  of the video PipeConfig is an \<open>InputFrameWorker\<close> followed by the pollable Workers; the
  pollable list holds no \<open>InputFrameWorker\<close> and the node list is the list of the
  pollable Workers' nodes. And when a request with input buffers is admitted (no other
  request pending, no null listening task, the Workers starting if this is the first
  request) and \<open>w\<close> is the first Worker without a node, then \<open>w\<close> alone is bound to the
  request, a poll message with the request's id, zero devices and zero polled devices is
  queued, \<open>prepareRun\<close> is called on the Workers up to and including \<open>w\<close> and on no
  later one, and no \<open>pollRequest\<close> is issued.
\<close>

theorem input_worker_and_dummy_poll:
  "(configStreams c activeStreams st = Some (OK, st') \<and>
    inputStream (mActiveStreams st') = Some input \<longrightarrow>
      (\<exists>ws. deviceWorkers (mPipeConfigs st' PIPE_VIDEO_INDEX) =
               InputFrameWorker input
                 (yuvStreams (mActiveStreams st') @ blobStreams (mActiveStreams st'))
                 (pipelineDepth c) # ws \<and>
             pollableWorkers (mPipeConfigs st' PIPE_VIDEO_INDEX) = ws \<and>
             nodes (mPipeConfigs st' PIPE_VIDEO_INDEX) = map getNode ws \<and>
             (\<forall>w\<in>set ws. \<not> isInputFrameWorker w))) \<and>
   (mMessagesPending st = [] \<and> mCurPipeConfig st = Some i \<and>
    deviceWorkers (mPipeConfigs st i) = pre @ w # post \<and>
    (\<forall>x\<in>set pre. getNode x \<noteq> None) \<and> getNode w = None \<and>
    0 < getInputBuffers request \<and>
    (\<forall>t\<in>set (mListeningTasks st). t \<noteq> None) \<and>
    (mFirstRequest st \<longrightarrow> (\<forall>x\<in>set (pre @ w # post). startWorker e x = OK)) \<longrightarrow>
      (\<exists>s st1. handleMessageCompleteReq e (Some request) st = Some (s, st1) \<and>
           mRequestToWorkMap st1 (getId request) = Some [w] \<and>
           mMessageQueue st1 = mMessageQueue st @
             [MESSAGE_ID_POLL \<lparr>requestId = word_of_int (getId request), numDevices = 0,
                               polledDevices = 0, activeDevices = None\<rparr>] \<and>
           mMessagesUnderwork st1 = mMessagesUnderwork st @ [request] \<and>
           mMessagesPending st1 = [] \<and>
           calls st1 = calls st @ map (\<lambda>t. Settings (the t) request) (mListeningTasks st)
                        @ (if mFirstRequest st then map StartWorker (pre @ w # post) else [])
                        @ map (\<lambda>x. PrepareRun x request) (pre @ [w])
                        @ (if s \<noteq> OK then [SetError (getId request)] else [])))"
  using configStreams_input_worker[of c activeStreams st st' input]
        dummy_poll_admission[of st i pre w post request e]
  by blast

lemma ex_reprocess_facts:
  "mMessagesPending ex_reprocess = []"
  "mCurPipeConfig ex_reprocess = Some PIPE_VIDEO_INDEX"
  "deviceWorkers (mPipeConfigs ex_reprocess PIPE_VIDEO_INDEX) = [ex_input_worker, ex_video_worker]"
  "mListeningTasks ex_reprocess = []"
  "mMessageQueue ex_reprocess = []"
  "mMessagesUnderwork ex_reprocess = []"
  by code_simp+

theorem input_worker_and_dummy_poll_witness:
  "(\<exists>st'. configStreams ex_cfg [ex_input, ex_1080p'] ex_started = Some (OK, st') \<and>
      deviceWorkers (mPipeConfigs st' PIPE_VIDEO_INDEX)
        = ex_input_worker # pollableWorkers (mPipeConfigs st' PIPE_VIDEO_INDEX) \<and>
      nodes (mPipeConfigs st' PIPE_VIDEO_INDEX)
        = map getNode (pollableWorkers (mPipeConfigs st' PIPE_VIDEO_INDEX))) \<and>
   (\<exists>s st1. handleMessageCompleteReq ex_collab (Some ex_reprocess_request) ex_reprocess
               = Some (s, st1) \<and>
      mRequestToWorkMap st1 5 = Some [ex_input_worker] \<and>
      mMessageQueue st1 =
        [MESSAGE_ID_POLL \<lparr>requestId = 5, numDevices = 0, polledDevices = 0,
                          activeDevices = None\<rparr>] \<and>
      mMessagesUnderwork st1 = [ex_reprocess_request])"
proof -
  have "(case configStreams ex_cfg [ex_input, ex_1080p'] ex_started of
           None \<Rightarrow> False
         | Some (s, st') \<Rightarrow>
             s = OK \<and> inputStream (mActiveStreams st') = Some ex_input \<and>
             yuvStreams (mActiveStreams st') = [ex_1080p'] \<and>
             blobStreams (mActiveStreams st') = [])"
    by code_simp
  then obtain st' where
    c: "configStreams ex_cfg [ex_input, ex_1080p'] ex_started = Some (OK, st')"
    and i: "inputStream (mActiveStreams st') = Some ex_input"
    and y: "yuvStreams (mActiveStreams st') = [ex_1080p']" "blobStreams (mActiveStreams st') = []"
    by (auto split: option.splits)
  have d: "pipelineDepth ex_cfg = 4" by (simp add: ex_cfg_def)
  have a: "deviceWorkers (mPipeConfigs st' PIPE_VIDEO_INDEX)
        = ex_input_worker # pollableWorkers (mPipeConfigs st' PIPE_VIDEO_INDEX) \<and>
      nodes (mPipeConfigs st' PIPE_VIDEO_INDEX)
        = map getNode (pollableWorkers (mPipeConfigs st' PIPE_VIDEO_INDEX))"
    using input_worker_and_dummy_poll[of ex_cfg "[ex_input, ex_1080p']" ex_started st' ex_input]
          c i y d
    by (auto simp: ex_input_worker_def)
  have h: "mMessagesPending ex_reprocess = [] \<and> mCurPipeConfig ex_reprocess = Some PIPE_VIDEO_INDEX \<and>
    deviceWorkers (mPipeConfigs ex_reprocess PIPE_VIDEO_INDEX) = [] @ ex_input_worker # [ex_video_worker] \<and>
    (\<forall>x\<in>set []. getNode x \<noteq> None) \<and> getNode ex_input_worker = None \<and>
    0 < getInputBuffers ex_reprocess_request \<and>
    (\<forall>t\<in>set (mListeningTasks ex_reprocess). t \<noteq> None) \<and>
    (mFirstRequest ex_reprocess \<longrightarrow>
       (\<forall>x\<in>set ([] @ ex_input_worker # [ex_video_worker]). startWorker ex_collab x = OK))"
    by (simp add: ex_reprocess_facts ex_input_worker_def ex_reprocess_request_def ex_collab_def)
  note inst = input_worker_and_dummy_poll[where c=ex_cfg and activeStreams="[]" and st'=ex_reprocess
            and input=ex_input and st=ex_reprocess and i=PIPE_VIDEO_INDEX and pre="[]"
            and w=ex_input_worker and post="[ex_video_worker]" and request=ex_reprocess_request
            and e=ex_collab, THEN conjunct2, THEN mp, OF h]
  have b: "\<exists>s st1. handleMessageCompleteReq ex_collab (Some ex_reprocess_request) ex_reprocess
               = Some (s, st1) \<and>
      mRequestToWorkMap st1 5 = Some [ex_input_worker] \<and>
      mMessageQueue st1 =
        [MESSAGE_ID_POLL \<lparr>requestId = 5, numDevices = 0, polledDevices = 0,
                          activeDevices = None\<rparr>] \<and>
      mMessagesUnderwork st1 = [ex_reprocess_request]"
  proof -
    from inst obtain s st1 where
      "handleMessageCompleteReq ex_collab (Some ex_reprocess_request) ex_reprocess = Some (s, st1)"
      "mRequestToWorkMap st1 (getId ex_reprocess_request) = Some [ex_input_worker]"
      "mMessageQueue st1 = mMessageQueue ex_reprocess @
             [MESSAGE_ID_POLL \<lparr>requestId = word_of_int (getId ex_reprocess_request), numDevices = 0,
                               polledDevices = 0, activeDevices = None\<rparr>]"
      "mMessagesUnderwork st1 = mMessagesUnderwork ex_reprocess @ [ex_reprocess_request]"
      by blast
    then show ?thesis
      by (intro exI[of _ s] exI[of _ st1]) (simp add: ex_reprocess_facts ex_reprocess_request_def)
  qed
  from c a b show ?thesis by blast
qed

end
